theory Spec2Isabelle
  imports Main "HOL-Library.Word"
begin

section \<open>Buffers and errors\<close>

text \<open>
  A Node \<open>Buffer\<close> is a list of bytes. JavaScript numbers are doubles; every number the
  program computes is a sum of a few unsigned 16 and 32 bit fields, far below \<open>2^53\<close>, so
  offsets and sizes are natural numbers and no rounding occurs. Only the loop variable of
  the backward scan and \<open>eocdPos\<close> can be negative; they are integers.
\<close>

type_synonym byte = "8 word"
type_synonym buffer = "byte list"

text \<open>
  Every \<open>throw\<close> of the program is a constructor, carrying the values its message
  interpolates. \<open>RangeError\<close> is the error (\<open>ERR_OUT_OF_RANGE\<close>, or
  \<open>ERR_BUFFER_OUT_OF_BOUNDS\<close> on a buffer shorter than the word) that the
  \<open>readUInt..LE\<close> methods of \<open>Buffer\<close> throw for an offset that leaves no room for
  the word, \<open>DecompressionFailed\<close> is the error that \<open>zlib.inflateRawSync\<close>
  throws, and \<open>FileSystemError\<close> is the error that \<open>fs.mkdirSync\<close> or
  \<open>fs.writeFileSync\<close> throws, with its code (\<open>EEXIST\<close>, \<open>ENOTDIR\<close>,
  \<open>EISDIR\<close>, \<open>ENOENT\<close>, \<open>EACCES\<close>, ...).
\<close>

datatype error =
    InvalidMagic
  | UnsupportedVersion nat
  | MalformedHeader
  | DirectoryNotFound
  | DirectoryOutOfRange
  | DirectorySignatureMismatch nat
  | LocalHeaderSignatureMismatch nat string
  | UnsupportedCompressionMethod nat string
  | DecompressionFailed
  | RangeError
  | FileSystemError string

definition bindE :: "error + 'a \<Rightarrow> ('a \<Rightarrow> error + 'b) \<Rightarrow> error + 'b" where
  "bindE m f = (case m of Inl e \<Rightarrow> Inl e | Inr x \<Rightarrow> f x)"

definition readUInt16LE :: "buffer \<Rightarrow> nat \<Rightarrow> error + nat" where
  "readUInt16LE buf offset =
     (if offset + 2 \<le> length buf
      then Inr (unat (buf ! offset) + unat (buf ! (offset + 1)) * 2 ^ 8)
      else Inl RangeError)"

definition readUInt32LE :: "buffer \<Rightarrow> nat \<Rightarrow> error + nat" where
  "readUInt32LE buf offset =
     (if offset + 4 \<le> length buf
      then Inr (unat (buf ! offset) + unat (buf ! (offset + 1)) * 2 ^ 8
                + unat (buf ! (offset + 2)) * 2 ^ 16 + unat (buf ! (offset + 3)) * 2 ^ 24)
      else Inl RangeError)"

text \<open>\<open>buf.slice(start, end)\<close> for non-negative arguments: both ends are clamped to the buffer.\<close>

definition slice_buf :: "buffer \<Rightarrow> nat \<Rightarrow> nat \<Rightarrow> buffer" where
  "slice_buf buf start end = take (end - start) (drop start buf)"

text \<open>
  \<open>buf.toString("utf8", start, end)\<close> decodes the bytes as UTF-8 and puts the
  replacement character U+FFFD where they are not well formed. A JavaScript string that
  comes out of this decoding, or from joining such strings with ASCII text, is held here
  in its UTF-8 form, one \<open>char\<close> per byte: this form determines the string, it is the
  form in which Node hands a path to the operating system, and the characters \<open>/\<close>
  and \<open>.\<close> that the path functions look for are single bytes that occur in no other
  character.

  So the decoding is a function from bytes to bytes. A well-formed character is copied:
  a byte below \<open>0x80\<close>; a lead byte \<open>0xC2..0xDF\<close>, \<open>0xE0..0xEF\<close> or
  \<open>0xF0..0xF4\<close> followed by one, two or three continuation bytes
  \<open>0x80..0xBF\<close>, the first of them further restricted after \<open>0xE0\<close> (no overlong
  form), \<open>0xED\<close> (no surrogate), \<open>0xF0\<close> (no overlong form) and \<open>0xF4\<close>
  (nothing above U+10FFFF). Where a character breaks off, what was read of it becomes one
  U+FFFD, the bytes \<open>EF BF BD\<close>, and the decoding goes on with the byte that did not
  fit; a byte that can start no character becomes one U+FFFD.
\<close>

definition replacementCharacter :: buffer where
  "replacementCharacter = [0xEF, 0xBF, 0xBD]"

definition inRange :: "byte \<Rightarrow> nat \<Rightarrow> nat \<Rightarrow> bool" where
  "inRange b lo hi = (lo \<le> unat b \<and> unat b \<le> hi)"

fun utf8Replace :: "buffer \<Rightarrow> buffer" where
  "utf8Replace [] = []"
| "utf8Replace (b # bs) =
     (if unat b < 0x80 then b # utf8Replace bs
      else if inRange b 0xC2 0xDF then
        (case bs of
           [] \<Rightarrow> replacementCharacter
         | c1 # r1 \<Rightarrow>
             if inRange c1 0x80 0xBF then b # c1 # utf8Replace r1
             else replacementCharacter @ utf8Replace bs)
      else if inRange b 0xE0 0xEF then
        (case bs of
           [] \<Rightarrow> replacementCharacter
         | c1 # r1 \<Rightarrow>
             if inRange c1 (if unat b = 0xE0 then 0xA0 else 0x80)
                           (if unat b = 0xED then 0x9F else 0xBF) then
               (case r1 of
                  [] \<Rightarrow> replacementCharacter
                | c2 # r2 \<Rightarrow>
                    if inRange c2 0x80 0xBF then b # c1 # c2 # utf8Replace r2
                    else replacementCharacter @ utf8Replace r1)
             else replacementCharacter @ utf8Replace bs)
      else if inRange b 0xF0 0xF4 then
        (case bs of
           [] \<Rightarrow> replacementCharacter
         | c1 # r1 \<Rightarrow>
             if inRange c1 (if unat b = 0xF0 then 0x90 else 0x80)
                           (if unat b = 0xF4 then 0x8F else 0xBF) then
               (case r1 of
                  [] \<Rightarrow> replacementCharacter
                | c2 # r2 \<Rightarrow>
                    if inRange c2 0x80 0xBF then
                      (case r2 of
                         [] \<Rightarrow> replacementCharacter
                       | c3 # r3 \<Rightarrow>
                           if inRange c3 0x80 0xBF then b # c1 # c2 # c3 # utf8Replace r3
                           else replacementCharacter @ utf8Replace r2)
                    else replacementCharacter @ utf8Replace r1)
             else replacementCharacter @ utf8Replace bs)
      else replacementCharacter @ utf8Replace bs)"

definition toString :: "buffer \<Rightarrow> nat \<Rightarrow> nat \<Rightarrow> string" where
  "toString buf start end =
     map (\<lambda>b. char_of (unat b)) (utf8Replace (slice_buf buf start end))"

section \<open>extractCrxToFolder: the container header\<close>

text \<open>Lines 124 to 152: the magic, the version and the start of the archive.\<close>

definition zipStartOffset :: "buffer \<Rightarrow> error + nat" where
  "zipStartOffset crxBuffer =
     (if toString crxBuffer 0 4 \<noteq> ''Cr24'' then Inl InvalidMagic
      else bindE (readUInt32LE crxBuffer 4) (\<lambda>version.
        if version = 2 then
          bindE (readUInt32LE crxBuffer 8) (\<lambda>pkLen.
          bindE (readUInt32LE crxBuffer 12) (\<lambda>sigLen.
            Inr (16 + pkLen + sigLen)))
        else if version = 3 \<or> version = 4 then
          bindE (readUInt32LE crxBuffer 8) (\<lambda>headerSize.
            Inr (12 + headerSize))
        else Inl (UnsupportedVersion version)))"

text \<open>Lines 154 to 159: the archive view, or the failure of the header stage.\<close>

definition stripContainerHeader :: "buffer \<Rightarrow> error + buffer" where
  "stripContainerHeader crxBuffer =
     bindE (zipStartOffset crxBuffer) (\<lambda>off.
       if off \<ge> length crxBuffer then Inl MalformedHeader
       else Inr (drop off crxBuffer))"

section \<open>parseZipCentralDirectory: locating and reading the directory\<close>

definition eocdSig :: nat where
  "eocdSig = 0x06054b50"

text \<open>
  Lines 184 to 190: the backward scan, as a function of the loop variable \<open>i\<close>. It
  returns the position of the first word equal to the signature, or \<open>-1\<close>, the initial
  value of \<open>eocdPos\<close>, when the loop ends without a match.
\<close>

function findEocd :: "buffer \<Rightarrow> int \<Rightarrow> error + int" where
  "findEocd zipBuffer i =
     (if i \<ge> max 0 (int (length zipBuffer) - 65557) then
        (case readUInt32LE zipBuffer (nat i) of
           Inl e \<Rightarrow> Inl e
         | Inr w \<Rightarrow> if w = eocdSig then Inr i else findEocd zipBuffer (i - 1))
      else Inr (- 1))"
  by pat_completeness auto
termination
  by (relation "measure (\<lambda>(zipBuffer, i). nat (i + 1))") auto

declare findEocd.simps [simp del]

record zip_entry =
  filename :: string
  "method" :: nat
  compSize :: nat
  unCompSize :: nat
  flags :: nat
  localHeaderOffset :: nat

text \<open>
  Lines 218 to 288: one central directory file header at \<open>ptr\<close>. The result is the
  descriptor pushed on \<open>files\<close> and the value of \<open>ptr\<close> after the header. Every read
  of the source is made, in its order, the ignored fields included.
\<close>

definition readCentralHeader :: "buffer \<Rightarrow> nat \<Rightarrow> error + (zip_entry \<times> nat)" where
  "readCentralHeader zipBuffer ptr =
     bindE (readUInt32LE zipBuffer ptr) (\<lambda>sig.
     if sig \<noteq> 0x02014b50 then Inl (DirectorySignatureMismatch ptr) else
     bindE (readUInt16LE zipBuffer (ptr + 4)) (\<lambda>verMade.
     bindE (readUInt16LE zipBuffer (ptr + 6)) (\<lambda>verNeed.
     bindE (readUInt16LE zipBuffer (ptr + 8)) (\<lambda>flags.
     bindE (readUInt16LE zipBuffer (ptr + 10)) (\<lambda>method.
     bindE (readUInt16LE zipBuffer (ptr + 12)) (\<lambda>modTime.
     bindE (readUInt16LE zipBuffer (ptr + 14)) (\<lambda>modDate.
     bindE (readUInt32LE zipBuffer (ptr + 16)) (\<lambda>crc32.
     bindE (readUInt32LE zipBuffer (ptr + 20)) (\<lambda>compSize.
     bindE (readUInt32LE zipBuffer (ptr + 24)) (\<lambda>unCompSize.
     bindE (readUInt16LE zipBuffer (ptr + 28)) (\<lambda>fLen.
     bindE (readUInt16LE zipBuffer (ptr + 30)) (\<lambda>xLen.
     bindE (readUInt16LE zipBuffer (ptr + 32)) (\<lambda>cLen.
     bindE (readUInt16LE zipBuffer (ptr + 34)) (\<lambda>diskNo.
     bindE (readUInt16LE zipBuffer (ptr + 36)) (\<lambda>intAttr.
     bindE (readUInt32LE zipBuffer (ptr + 38)) (\<lambda>extAttr.
     bindE (readUInt32LE zipBuffer (ptr + 42)) (\<lambda>localHeaderOffset.
       Inr (\<lparr>filename = toString zipBuffer (ptr + 46) (ptr + 46 + fLen), method = method,
             compSize = compSize, unCompSize = unCompSize,
             flags = flags, localHeaderOffset = localHeaderOffset\<rparr>,
            ptr + 46 + fLen + xLen + cLen))))))))))))))))))"

text \<open>Lines 215 to 289: the loop over \<open>totalCD\<close> headers, by the number still to read.\<close>

fun readCentralDirectory :: "buffer \<Rightarrow> nat \<Rightarrow> nat \<Rightarrow> error + zip_entry list" where
  "readCentralDirectory zipBuffer ptr 0 = Inr []"
| "readCentralDirectory zipBuffer ptr (Suc n) =
     bindE (readCentralHeader zipBuffer ptr) (\<lambda>(file, ptr').
     bindE (readCentralDirectory zipBuffer ptr' n) (\<lambda>files.
       Inr (file # files)))"

text \<open>Lines 182 to 289: everything before the first call of the file system.\<close>

definition readDirectory :: "buffer \<Rightarrow> error + zip_entry list" where
  "readDirectory zipBuffer =
     bindE (findEocd zipBuffer (int (length zipBuffer) - 4)) (\<lambda>eocdPos.
     if eocdPos < 0 then Inl DirectoryNotFound else
     bindE (readUInt16LE zipBuffer (nat eocdPos + 10)) (\<lambda>totalCD.
     bindE (readUInt32LE zipBuffer (nat eocdPos + 12)) (\<lambda>cdSize.
     bindE (readUInt32LE zipBuffer (nat eocdPos + 16)) (\<lambda>cdOffset.
     if cdOffset + cdSize > length zipBuffer then Inl DirectoryOutOfRange
     else readCentralDirectory zipBuffer cdOffset totalCD))))"

section \<open>Paths\<close>

text \<open>
  \<open>path.join\<close> and \<open>path.dirname\<close> of Node on a POSIX system. \<open>join\<close> puts a
  separator between its non-empty arguments and normalises: empty and \<open>.\<close> segments
  disappear, a \<open>..\<close> segment removes the segment before it, and stays when there is none
  to remove and the path is relative; a trailing separator is kept.
\<close>

fun splitSegments :: "string \<Rightarrow> string list" where
  "splitSegments [] = [[]]"
| "splitSegments (c # cs) =
     (if c = CHR ''/'' then [] # splitSegments cs
      else (case splitSegments cs of [] \<Rightarrow> [[c]] | s # ss \<Rightarrow> (c # s) # ss))"

fun joinSegments :: "string list \<Rightarrow> string" where
  "joinSegments [] = []"
| "joinSegments [s] = s"
| "joinSegments (s # t # ss) = s @ ''/'' @ joinSegments (t # ss)"

text \<open>The segments kept so far are held in reverse, the last one first.\<close>

fun normalizeSegments :: "bool \<Rightarrow> string list \<Rightarrow> string list \<Rightarrow> string list" where
  "normalizeSegments allowAboveRoot res [] = rev res"
| "normalizeSegments allowAboveRoot res (s # ss) =
     (if s = [] \<or> s = ''.'' then normalizeSegments allowAboveRoot res ss
      else if s = ''..'' then
        (if res \<noteq> [] \<and> hd res \<noteq> ''..'' then normalizeSegments allowAboveRoot (tl res) ss
         else if allowAboveRoot then normalizeSegments allowAboveRoot (''..'' # res) ss
         else normalizeSegments allowAboveRoot res ss)
      else normalizeSegments allowAboveRoot (s # res) ss)"

definition path_normalize :: "string \<Rightarrow> string" where
  "path_normalize p =
     (if p = [] then ''.''
      else
        let isAbsolute = (hd p = CHR ''/'');
            trailingSeparator = (last p = CHR ''/'');
            q = joinSegments (normalizeSegments (\<not> isAbsolute) [] (splitSegments p))
        in if q = [] then (if isAbsolute then ''/'' else if trailingSeparator then ''./'' else ''.'')
           else (if isAbsolute then ''/'' else []) @ q @ (if trailingSeparator then ''/'' else []))"

definition path_join :: "string \<Rightarrow> string \<Rightarrow> string" where
  "path_join a b =
     (if a = [] \<and> b = [] then ''.''
      else if a = [] then path_normalize b
      else if b = [] then path_normalize a
      else path_normalize (a @ ''/'' @ b))"

definition path_dirname :: "string \<Rightarrow> string" where
  "path_dirname p =
     (if p = [] then ''.''
      else
        let hasRoot = (hd p = CHR ''/'');
            r = dropWhile (\<lambda>c. c \<noteq> CHR ''/'') (dropWhile (\<lambda>c. c = CHR ''/'') (rev (tl p)))
        in if r = [] then (if hasRoot then ''/'' else ''.'')
           else if hasRoot \<and> length r = 1 then ''//''
           else take (length r) p)"

definition endsWithSlash :: "string \<Rightarrow> bool" where
  "endsWithSlash s = (s \<noteq> [] \<and> last s = CHR ''/'')"

section \<open>The file system and zlib\<close>

text \<open>
  The file system is a parameter of the program: a type \<open>'fs\<close> of its states and the
  two calls the program makes, \<open>fs.mkdirSync(p, {recursive: true})\<close> and
  \<open>fs.writeFileSync(p, data)\<close>. A call returns the state it leaves and the code of the
  error it throws, or \<open>None\<close> when it returns. Nothing is assumed of either: any call
  may be refused, and a refused call may have changed the state. The three other fields
  are what a later reader finds: the content of the file at a path, if there is one,
  whether a path is a directory, and whether two paths name the same file. The program
  does not call them.
\<close>

record 'fs file_system =
  fs_mkdirSync :: "string \<Rightarrow> 'fs \<Rightarrow> string option \<times> 'fs"
  fs_writeFileSync :: "string \<Rightarrow> buffer \<Rightarrow> 'fs \<Rightarrow> string option \<times> 'fs"
  fs_readFile :: "'fs \<Rightarrow> string \<Rightarrow> buffer option"
  fs_isDirectory :: "'fs \<Rightarrow> string \<Rightarrow> bool"
  fs_samePath :: "string \<Rightarrow> string \<Rightarrow> bool"

text \<open>A call as the program sees it: it returns, or it throws and the program ends.\<close>

definition mkdirSync :: "'fs file_system \<Rightarrow> string \<Rightarrow> 'fs \<Rightarrow> (error + unit) \<times> 'fs" where
  "mkdirSync fsys p s =
     (case fs_mkdirSync fsys p s of
        (None, s') \<Rightarrow> (Inr (), s')
      | (Some code, s') \<Rightarrow> (Inl (FileSystemError code), s'))"

definition writeFileSync ::
  "'fs file_system \<Rightarrow> string \<Rightarrow> buffer \<Rightarrow> 'fs \<Rightarrow> (error + unit) \<times> 'fs" where
  "writeFileSync fsys p d s =
     (case fs_writeFileSync fsys p d s of
        (None, s') \<Rightarrow> (Inr (), s')
      | (Some code, s') \<Rightarrow> (Inl (FileSystemError code), s'))"

text \<open>
  \<open>zlib.inflateRawSync\<close> is a parameter: a function from a raw deflate stream to its
  decoded bytes, \<open>None\<close> where zlib throws.
\<close>

type_synonym inflater = "buffer \<Rightarrow> buffer option"

definition inflateRawSync :: "inflater \<Rightarrow> buffer \<Rightarrow> error + buffer" where
  "inflateRawSync inflate fileData =
     (case inflate fileData of None \<Rightarrow> Inl DecompressionFailed | Some unzipped \<Rightarrow> Inr unzipped)"

section \<open>parseZipCentralDirectory: extracting the entries\<close>

text \<open>Lines 305 to 346: from the local header of an entry to its \<open>fileData\<close>.\<close>

definition readFileData :: "buffer \<Rightarrow> zip_entry \<Rightarrow> error + buffer" where
  "readFileData zipBuffer file =
     (let lhPtr = localHeaderOffset file in
      bindE (readUInt32LE zipBuffer lhPtr) (\<lambda>localSig.
      if localSig \<noteq> 0x04034b50
      then Inl (LocalHeaderSignatureMismatch lhPtr (filename file)) else
      bindE (readUInt16LE zipBuffer (lhPtr + 4)) (\<lambda>lhVerNeed.
      bindE (readUInt16LE zipBuffer (lhPtr + 6)) (\<lambda>lhFlags.
      bindE (readUInt16LE zipBuffer (lhPtr + 8)) (\<lambda>lhMethod.
      bindE (readUInt16LE zipBuffer (lhPtr + 26)) (\<lambda>lhFNameLen.
      bindE (readUInt16LE zipBuffer (lhPtr + 28)) (\<lambda>lhXLen.
        let dataPtr = lhPtr + 30 + lhFNameLen + lhXLen
        in Inr (slice_buf zipBuffer dataPtr (dataPtr + compSize file)))))))))"

text \<open>
  Lines 295 to 364: the body of the loop over \<open>files\<close>. The parent directory is made
  (line 350) before the method is looked at, before zlib is called and before anything
  is written; an error of any call ends the extraction there.
\<close>

definition extractFile ::
  "'fs file_system \<Rightarrow> inflater \<Rightarrow> buffer \<Rightarrow> string \<Rightarrow> zip_entry \<Rightarrow> 'fs
     \<Rightarrow> (error + unit) \<times> 'fs" where
  "extractFile fsys inflate zipBuffer outFolder file s =
     (if endsWithSlash (filename file)
      then mkdirSync fsys (path_join outFolder (filename file)) s
      else
        (case readFileData zipBuffer file of
           Inl e \<Rightarrow> (Inl e, s)
         | Inr fileData \<Rightarrow>
             let outPath = path_join outFolder (filename file)
             in (case mkdirSync fsys (path_dirname outPath) s of
                   (Inl e, s1) \<Rightarrow> (Inl e, s1)
                 | (Inr u, s1) \<Rightarrow>
                     if method file = 0 then writeFileSync fsys outPath fileData s1
                     else if method file = 8 then
                       (case inflateRawSync inflate fileData of
                          Inl e \<Rightarrow> (Inl e, s1)
                        | Inr unzipped \<Rightarrow> writeFileSync fsys outPath unzipped s1)
                     else (Inl (UnsupportedCompressionMethod (method file) (filename file)),
                           s1))))"

fun extractFiles ::
  "'fs file_system \<Rightarrow> inflater \<Rightarrow> buffer \<Rightarrow> string \<Rightarrow> zip_entry list \<Rightarrow> 'fs
     \<Rightarrow> (error + unit) \<times> 'fs" where
  "extractFiles fsys inflate zipBuffer outFolder [] s = (Inr (), s)"
| "extractFiles fsys inflate zipBuffer outFolder (file # files) s =
     (case extractFile fsys inflate zipBuffer outFolder file s of
        (Inl e, s') \<Rightarrow> (Inl e, s')
      | (Inr u, s') \<Rightarrow> extractFiles fsys inflate zipBuffer outFolder files s')"

text \<open>Lines 177 to 365: the directory is read whole, then the root is made (line 292).\<close>

definition parseZipCentralDirectory ::
  "'fs file_system \<Rightarrow> inflater \<Rightarrow> buffer \<Rightarrow> string \<Rightarrow> 'fs \<Rightarrow> (error + unit) \<times> 'fs" where
  "parseZipCentralDirectory fsys inflate zipBuffer outFolder s =
     (case readDirectory zipBuffer of
        Inl e \<Rightarrow> (Inl e, s)
      | Inr files \<Rightarrow>
          (case mkdirSync fsys outFolder s of
             (Inl e, s0) \<Rightarrow> (Inl e, s0)
           | (Inr u, s0) \<Rightarrow> extractFiles fsys inflate zipBuffer outFolder files s0))"

definition extractCrxToFolder ::
  "'fs file_system \<Rightarrow> inflater \<Rightarrow> buffer \<Rightarrow> string \<Rightarrow> 'fs \<Rightarrow> (error + unit) \<times> 'fs" where
  "extractCrxToFolder fsys inflate crxBuffer outFolder s =
     (case stripContainerHeader crxBuffer of
        Inl e \<Rightarrow> (Inl e, s)
      | Inr zipBuffer \<Rightarrow> parseZipCentralDirectory fsys inflate zipBuffer outFolder s)"

section \<open>Notions of the specification\<close>

text \<open>
  The positions the search may select: from \<open>max(0, length - 65557)\<close> up to
  \<open>length - 4\<close>; and what it looks for there: a little-endian word equal to the
  signature.
\<close>

definition searchWindow :: "buffer \<Rightarrow> int set" where
  "searchWindow zipBuffer =
     {max 0 (int (length zipBuffer) - 65557) .. int (length zipBuffer) - 4}"

definition signatureAt :: "buffer \<Rightarrow> int \<Rightarrow> bool" where
  "signatureAt zipBuffer q = (readUInt32LE zipBuffer (nat q) = Inr eocdSig)"

text \<open>
  Where the payload of an entry starts: immediately after the 30 bytes of fixed fields of
  its local header and the name and the extra field whose lengths that header gives.
\<close>

definition payloadStart :: "buffer \<Rightarrow> zip_entry \<Rightarrow> error + nat" where
  "payloadStart zipBuffer f =
     bindE (readUInt16LE zipBuffer (localHeaderOffset f + 26)) (\<lambda>lhFNameLen.
     bindE (readUInt16LE zipBuffer (localHeaderOffset f + 28)) (\<lambda>lhXLen.
       Inr (localHeaderOffset f + 30 + lhFNameLen + lhXLen)))"

text \<open>
  Two views of the same length that agree everywhere except, possibly, in the compressed
  and uncompressed size fields of the local header of an entry (bytes 18 to 25 of it).
\<close>

definition sameOutsideLocalSizes :: "buffer \<Rightarrow> buffer \<Rightarrow> zip_entry \<Rightarrow> bool" where
  "sameOutsideLocalSizes zipBuffer' zipBuffer f =
     (length zipBuffer' = length zipBuffer
      \<and> (\<forall>i < length zipBuffer.
            i \<notin> {localHeaderOffset f + 18 ..< localHeaderOffset f + 26}
            \<longrightarrow> zipBuffer' ! i = zipBuffer ! i))"

text \<open>
  A path that is, as a text, the root or below it. The root is taken in the form that
  \<open>path.join\<close> returns, without a separator at its end.
\<close>

definition liesUnder :: "string \<Rightarrow> string \<Rightarrow> bool" where
  "liesUnder root p = (p = root \<or> take (length root + 1) p = root @ ''/'')"

text \<open>
  A sequence of calls on the file system, made in order until one is refused: what the
  program does with the file system once it knows what to create.
\<close>

datatype fs_call = MkdirSync string | WriteFileSync string buffer

definition performCall :: "'fs file_system \<Rightarrow> fs_call \<Rightarrow> 'fs \<Rightarrow> (error + unit) \<times> 'fs" where
  "performCall fsys c s =
     (case c of MkdirSync p \<Rightarrow> mkdirSync fsys p s | WriteFileSync p d \<Rightarrow> writeFileSync fsys p d s)"

fun performCalls :: "'fs file_system \<Rightarrow> fs_call list \<Rightarrow> 'fs \<Rightarrow> (error + unit) \<times> 'fs" where
  "performCalls fsys [] s = (Inr (), s)"
| "performCalls fsys (c # cs) s =
     (case performCall fsys c s of
        (Inl e, s') \<Rightarrow> (Inl e, s')
      | (Inr u, s') \<Rightarrow> performCalls fsys cs s')"

text \<open>
  The data of the last call of a sequence that writes the file that the path \<open>p\<close>
  names, if any does.
\<close>

fun lastWrite :: "'fs file_system \<Rightarrow> fs_call list \<Rightarrow> string \<Rightarrow> buffer option" where
  "lastWrite fsys [] p = None"
| "lastWrite fsys (c # cs) p =
     (case lastWrite fsys cs p of
        Some d \<Rightarrow> Some d
      | None \<Rightarrow> (case c of
                   WriteFileSync q d \<Rightarrow> if fs_samePath fsys p q then Some d else None
                 | MkdirSync q \<Rightarrow> None))"

text \<open>
  What the specification expects of a file system when it speaks of the files and
  directories that an extraction leaves. A call that returns has done its work: after
  \<open>mkdirSync\<close> the path is a directory, after \<open>writeFileSync\<close> the file holds the
  data, under every path that names it; and it has done nothing else: the other files
  hold what they held, no file appears or changes with a \<open>mkdirSync\<close>, and what was
  a directory still is one. A path names the same file as itself. Nothing is said of a
  call that throws.
\<close>

definition wellBehaved :: "'fs file_system \<Rightarrow> bool" where
  "wellBehaved fsys =
     ((\<forall>p. fs_samePath fsys p p)
      \<and> (\<forall>p s s'. fs_mkdirSync fsys p s = (None, s') \<longrightarrow>
          fs_isDirectory fsys s' p
          \<and> (\<forall>q. fs_readFile fsys s' q = fs_readFile fsys s q)
          \<and> (\<forall>q. fs_isDirectory fsys s q \<longrightarrow> fs_isDirectory fsys s' q))
      \<and> (\<forall>p d s s'. fs_writeFileSync fsys p d s = (None, s') \<longrightarrow>
          (\<forall>q. fs_readFile fsys s' q
                 = (if fs_samePath fsys q p then Some d else fs_readFile fsys s q))
          \<and> (\<forall>q. fs_isDirectory fsys s q \<longrightarrow> fs_isDirectory fsys s' q)))"

section \<open>Archives, as a writer lays them out\<close>

text \<open>
  The round-trip property speaks of an archive built from a list of entries. The
  definitions of this section are that builder: they follow the layout that section 4.2
  of the specification reads back (local records, then the central directory, then the
  end record with its comment), with every field the reader looks at and the others
  filled as a writer fills them. They are not part of the program.
\<close>

definition le16 :: "nat \<Rightarrow> buffer" where
  "le16 v = [of_nat v, of_nat (v div 2 ^ 8)]"

definition le32 :: "nat \<Rightarrow> buffer" where
  "le32 v = [of_nat v, of_nat (v div 2 ^ 8), of_nat (v div 2 ^ 16), of_nat (v div 2 ^ 24)]"

definition nameBytes :: "string \<Rightarrow> buffer" where
  "nameBytes s = map (\<lambda>c. of_nat (of_char c)) s"

text \<open>
  A member is what goes into an archive: its name, method, flags and checksum, its
  uncompressed content and the payload stored for it, the extra fields of its two
  records and its comment.
\<close>

record zip_member =
  m_name :: string
  m_method :: nat
  m_flags :: nat
  m_crc :: nat
  m_content :: buffer
  m_payload :: buffer
  m_extraLocal :: buffer
  m_extraCentral :: buffer
  m_comment :: buffer

text \<open>
  Bit 3 of the flags: the local header carries zeros for the checksum and the sizes, and
  a data descriptor with the true values follows the payload.
\<close>

definition deferredSizes :: "zip_member \<Rightarrow> bool" where
  "deferredSizes m = (m_flags m div 8 mod 2 = 1)"

definition localHeader :: "zip_member \<Rightarrow> buffer" where
  "localHeader m =
     le32 0x04034b50 @ le16 20 @ le16 (m_flags m) @ le16 (m_method m) @ le16 0 @ le16 0
     @ (if deferredSizes m then le32 0 @ le32 0 @ le32 0
        else le32 (m_crc m) @ le32 (length (m_payload m)) @ le32 (length (m_content m)))
     @ le16 (length (m_name m)) @ le16 (length (m_extraLocal m))"

definition dataDescriptor :: "zip_member \<Rightarrow> buffer" where
  "dataDescriptor m =
     (if deferredSizes m
      then le32 0x08074b50 @ le32 (m_crc m) @ le32 (length (m_payload m))
           @ le32 (length (m_content m))
      else [])"

definition localRecord :: "zip_member \<Rightarrow> buffer" where
  "localRecord m =
     localHeader m @ nameBytes (m_name m) @ m_extraLocal m @ m_payload m @ dataDescriptor m"

definition centralHeader :: "zip_member \<Rightarrow> nat \<Rightarrow> buffer" where
  "centralHeader m off =
     le32 0x02014b50 @ le16 20 @ le16 20 @ le16 (m_flags m) @ le16 (m_method m) @ le16 0 @ le16 0
     @ le32 (m_crc m) @ le32 (length (m_payload m)) @ le32 (length (m_content m))
     @ le16 (length (m_name m)) @ le16 (length (m_extraCentral m)) @ le16 (length (m_comment m))
     @ le16 0 @ le16 0 @ le32 0 @ le32 off"

definition centralRecord :: "zip_member \<Rightarrow> nat \<Rightarrow> buffer" where
  "centralRecord m off =
     centralHeader m off @ nameBytes (m_name m) @ m_extraCentral m @ m_comment m"

fun localRecords :: "zip_member list \<Rightarrow> buffer" where
  "localRecords [] = []"
| "localRecords (m # ms) = localRecord m @ localRecords ms"

fun centralDirectory :: "nat \<Rightarrow> zip_member list \<Rightarrow> buffer" where
  "centralDirectory off [] = []"
| "centralDirectory off (m # ms) =
     centralRecord m off @ centralDirectory (off + length (localRecord m)) ms"

definition endRecord :: "nat \<Rightarrow> nat \<Rightarrow> nat \<Rightarrow> buffer \<Rightarrow> buffer" where
  "endRecord n cdSize cdOffset acomment =
     le32 0x06054b50 @ le16 0 @ le16 0 @ le16 n @ le16 n @ le32 cdSize @ le32 cdOffset
     @ le16 (length acomment) @ acomment"

definition buildZip :: "zip_member list \<Rightarrow> buffer \<Rightarrow> buffer" where
  "buildZip ms acomment =
     localRecords ms @ centralDirectory 0 ms
     @ endRecord (length ms) (length (centralDirectory 0 ms)) (length (localRecords ms)) acomment"

text \<open>
  The values of a member, and of an archive, fit the fields that carry them, and the name
  of a member is a text: its bytes are well-formed UTF-8, which the decoding leaves as
  they are.
\<close>

definition wellFormedName :: "string \<Rightarrow> bool" where
  "wellFormedName n = (utf8Replace (nameBytes n) = nameBytes n)"

definition memberFits :: "zip_member \<Rightarrow> bool" where
  "memberFits m =
     (wellFormedName (m_name m)
      \<and> length (m_name m) < 2 ^ 16 \<and> m_method m < 2 ^ 16 \<and> m_flags m < 2 ^ 16
      \<and> length (m_extraLocal m) < 2 ^ 16 \<and> length (m_extraCentral m) < 2 ^ 16
      \<and> length (m_comment m) < 2 ^ 16
      \<and> length (m_payload m) < 2 ^ 32 \<and> length (m_content m) < 2 ^ 32)"

definition archiveFits :: "zip_member list \<Rightarrow> buffer \<Rightarrow> bool" where
  "archiveFits ms acomment =
     (length ms < 2 ^ 16 \<and> (\<forall>m \<in> set ms. memberFits m)
      \<and> length (localRecords ms) < 2 ^ 32 \<and> length (centralDirectory 0 ms) < 2 ^ 32
      \<and> length acomment < 2 ^ 16)"

text \<open>The descriptor that the directory of the archive holds for a member.\<close>

definition entryOf :: "zip_member \<Rightarrow> nat \<Rightarrow> zip_entry" where
  "entryOf m off =
     \<lparr>filename = m_name m, method = m_method m, compSize = length (m_payload m),
      unCompSize = length (m_content m), flags = m_flags m, localHeaderOffset = off\<rparr>"

fun entriesOf :: "nat \<Rightarrow> zip_member list \<Rightarrow> zip_entry list" where
  "entriesOf off [] = []"
| "entriesOf off (m # ms) = entryOf m off # entriesOf (off + length (localRecord m)) ms"

text \<open>
  A regular member is stored, its payload being its content, or deflated, its payload
  inflating to its content. The method of a directory marker is free.
\<close>

definition decodes :: "inflater \<Rightarrow> zip_member \<Rightarrow> bool" where
  "decodes inflate m =
     (endsWithSlash (m_name m)
      \<or> (m_method m = 0 \<and> m_payload m = m_content m)
      \<or> (m_method m = 8 \<and> inflate (m_payload m) = Some (m_content m)))"

text \<open>
  The calls that recreate a member under the destination root, and whether a member is a
  regular one whose file is the one that the path \<open>p\<close> names.
\<close>

definition writesPath :: "'fs file_system \<Rightarrow> string \<Rightarrow> string \<Rightarrow> zip_member \<Rightarrow> bool" where
  "writesPath fsys outFolder p m =
     (\<not> endsWithSlash (m_name m) \<and> fs_samePath fsys p (path_join outFolder (m_name m)))"

definition memberCalls :: "string \<Rightarrow> zip_member \<Rightarrow> fs_call list" where
  "memberCalls outFolder m =
     (if endsWithSlash (m_name m) then [MkdirSync (path_join outFolder (m_name m))]
      else [MkdirSync (path_dirname (path_join outFolder (m_name m))),
            WriteFileSync (path_join outFolder (m_name m)) (m_content m)])"

text \<open>
  Where the end record starts, and the condition on which the search finds it: the
  signature does not occur again after that position, neither across the fields of the
  record nor in the comment.
\<close>

definition recordPosition :: "zip_member list \<Rightarrow> nat" where
  "recordPosition ms = length (localRecords ms) + length (centralDirectory 0 ms)"

definition signatureOnlyAtRecord :: "zip_member list \<Rightarrow> buffer \<Rightarrow> bool" where
  "signatureOnlyAtRecord ms acomment =
     (\<forall>q \<in> searchWindow (buildZip ms acomment).
        int (recordPosition ms) < q \<longrightarrow> \<not> signatureAt (buildZip ms acomment) q)"

section \<open>Concrete inputs of the examples\<close>

text \<open>
  The theorems below hold for every file system. The examples need one that computes:
  this one has directories and regular files and nothing else (no links, no
  permissions, one path per file, no other process), which is what the calls of the
  program meet in a directory of their own. A state gives what is at a path, the path
  being in the form that \<open>path.join\<close> and \<open>path.dirname\<close> return; \<open>.\<close>,
  \<open>..\<close> and \<open>/\<close> are directories from the start.

  \<open>pathPrefixes\<close> lists the directories on the way to a path and the path itself.
  \<open>mkdirSync\<close> with \<open>recursive\<close> throws \<open>ENOTDIR\<close> when one on the way is a
  file and \<open>EEXIST\<close> when the path itself is a file, and else makes those that are
  missing. \<open>writeFileSync\<close> throws \<open>EISDIR\<close> on a directory, \<open>ENOTDIR\<close> or
  \<open>ENOENT\<close> when a directory on the way is a file or is missing, and else creates the
  file or replaces its content; a path with \<open>.\<close>, \<open>..\<close> or an empty segment in
  it, which the program never passes for a file, gets \<open>EINVAL\<close> here.
\<close>

datatype node = Directory | RegularFile buffer

type_synonym disk = "string \<Rightarrow> node option"

definition emptyDisk :: disk where
  "emptyDisk = (\<lambda>p. None)"

fun prefixesFrom :: "string \<Rightarrow> string list \<Rightarrow> string list" where
  "prefixesFrom at [] = []"
| "prefixesFrom at (seg # segs) =
     (let q = (if at = [] \<or> at = ''/'' then at @ seg else at @ ''/'' @ seg)
      in (if seg = ''.'' \<or> seg = ''..'' then [] else [q]) @ prefixesFrom q segs)"

definition pathPrefixes :: "string \<Rightarrow> string list" where
  "pathPrefixes p =
     prefixesFrom (if p \<noteq> [] \<and> hd p = CHR ''/'' then ''/'' else [])
       (filter (\<lambda>seg. seg \<noteq> []) (splitSegments p))"

definition isFileAt :: "disk \<Rightarrow> string \<Rightarrow> bool" where
  "isFileAt d q = (case d q of Some (RegularFile b) \<Rightarrow> True | _ \<Rightarrow> False)"

definition isDirectoryAt :: "disk \<Rightarrow> string \<Rightarrow> bool" where
  "isDirectoryAt d p = (pathPrefixes p = [] \<or> d (last (pathPrefixes p)) = Some Directory)"

definition readFileAt :: "disk \<Rightarrow> string \<Rightarrow> buffer option" where
  "readFileAt d p = (case d p of Some (RegularFile b) \<Rightarrow> Some b | _ \<Rightarrow> None)"

fun makeDirectories :: "string list \<Rightarrow> disk \<Rightarrow> disk" where
  "makeDirectories [] d = d"
| "makeDirectories (q # qs) d =
     makeDirectories qs (if d q = None then d(q \<mapsto> Directory) else d)"

definition plainMkdir :: "string \<Rightarrow> disk \<Rightarrow> string option \<times> disk" where
  "plainMkdir p d =
     (let ps = pathPrefixes p in
      if list_ex (isFileAt d) (butlast ps) then (Some ''ENOTDIR'', d)
      else if ps \<noteq> [] \<and> isFileAt d (last ps) then (Some ''EEXIST'', d)
      else (None, makeDirectories ps d))"

definition plainWrite :: "string \<Rightarrow> buffer \<Rightarrow> disk \<Rightarrow> string option \<times> disk" where
  "plainWrite p content d =
     (let ps = pathPrefixes p in
      if ps = [] \<or> last ps \<noteq> p then (Some ''EINVAL'', d)
      else if d p = Some Directory then (Some ''EISDIR'', d)
      else if list_ex (isFileAt d) (butlast ps) then (Some ''ENOTDIR'', d)
      else if list_ex (\<lambda>q. d q = None) (butlast ps) then (Some ''ENOENT'', d)
      else (None, d(p \<mapsto> RegularFile content)))"

definition plainFs :: "disk file_system" where
  "plainFs = \<lparr>fs_mkdirSync = plainMkdir, fs_writeFileSync = plainWrite,
              fs_readFile = readFileAt, fs_isDirectory = isDirectoryAt,
              fs_samePath = (\<lambda>p q. p = q)\<rparr>"

text \<open>
  The theorems below hold for every inflater. The examples need one that computes: this
  one decodes the raw deflate streams that consist of a single final stored block (a byte
  with BFINAL = 1 and BTYPE = 00, LEN, its complement NLEN, then LEN literal bytes), as
  zlib does, and rejects every other input. It stands for zlib on such streams only.
\<close>

definition inflateStored :: inflater where
  "inflateStored fileData =
     (case fileData of
        h # l0 # l1 # n0 # n1 # rest \<Rightarrow>
          let len = unat l0 + unat l1 * 2 ^ 8; nlen = unat n0 + unat n1 * 2 ^ 8
          in if unat h mod 8 = 1 \<and> len + nlen = 65535 \<and> len \<le> length rest
             then Some (take len rest) else None
      | _ \<Rightarrow> None)"

text \<open>
  Members of the examples: a directory marker, a stored file in that directory, a
  deflated file with a data descriptor, a stored file, and a stored file of 101010225
  zero bytes, which puts the central directory at offset \<open>0x06054b50\<close>.
\<close>

definition dirMember :: zip_member where
  "dirMember = \<lparr>m_name = ''d/'', m_method = 0, m_flags = 0, m_crc = 0, m_content = [],
     m_payload = [], m_extraLocal = [], m_extraCentral = [], m_comment = []\<rparr>"

definition storedMember :: zip_member where
  "storedMember = \<lparr>m_name = ''d/a.txt'', m_method = 0, m_flags = 0, m_crc = 0xd8932aac,
     m_content = [0x68, 0x69], m_payload = [0x68, 0x69],
     m_extraLocal = [], m_extraCentral = [], m_comment = []\<rparr>"

definition deflatedMember :: zip_member where
  "deflatedMember = \<lparr>m_name = ''b'', m_method = 8, m_flags = 8, m_crc = 0xd8932aac,
     m_content = [0x68, 0x69], m_payload = [0x01, 0x02, 0x00, 0xfd, 0xff, 0x68, 0x69],
     m_extraLocal = [], m_extraCentral = [], m_comment = []\<rparr>"

definition plainMember :: zip_member where
  "plainMember = \<lparr>m_name = ''a'', m_method = 0, m_flags = 0, m_crc = 0xd8932aac,
     m_content = [0x68, 0x69], m_payload = [0x68, 0x69],
     m_extraLocal = [], m_extraCentral = [], m_comment = []\<rparr>"

definition hugeContent :: buffer where
  "hugeContent = replicate 101010225 0"

definition hugeMember :: zip_member where
  "hugeMember = \<lparr>m_name = ''a'', m_method = 0, m_flags = 0, m_crc = 0x13015e20,
     m_content = hugeContent, m_payload = hugeContent,
     m_extraLocal = [], m_extraCentral = [], m_comment = []\<rparr>"

text \<open>
  Two more members: a second stored file \<open>a\<close>, holding \<open>yo\<close>, and a stored file
  \<open>a/b\<close>.
\<close>

definition rewrittenMember :: zip_member where
  "rewrittenMember = \<lparr>m_name = ''a'', m_method = 0, m_flags = 0, m_crc = 0x6229ac89,
     m_content = [0x79, 0x6f], m_payload = [0x79, 0x6f],
     m_extraLocal = [], m_extraCentral = [], m_comment = []\<rparr>"

definition nestedMember :: zip_member where
  "nestedMember = \<lparr>m_name = ''a/b'', m_method = 0, m_flags = 0, m_crc = 0xd8932aac,
     m_content = [0x68, 0x69], m_payload = [0x68, 0x69],
     m_extraLocal = [], m_extraCentral = [], m_comment = []\<rparr>"

text \<open>
  An archive of one stored entry \<open>a\<close> holding \<open>hi\<close>, whose directory gives the
  compressed size 200.
\<close>

definition truncatedArchive :: buffer where
  "truncatedArchive =
    [0x50, 0x4b, 0x03, 0x04, 0x14, 0x00, 0x00, 0x00, 0x00, 0x00, 0x00, 0x00, 0x00, 0x00, 0xac, 0x2a,
     0x93, 0xd8, 0x02, 0x00, 0x00, 0x00, 0x02, 0x00, 0x00, 0x00, 0x01, 0x00, 0x00, 0x00, 0x61, 0x68,
     0x69, 0x50, 0x4b, 0x01, 0x02, 0x14, 0x00, 0x14, 0x00, 0x00, 0x00, 0x00, 0x00, 0x00, 0x00, 0x00,
     0x00, 0xac, 0x2a, 0x93, 0xd8, 0xc8, 0x00, 0x00, 0x00, 0x02, 0x00, 0x00, 0x00, 0x01, 0x00, 0x00,
     0x00, 0x00, 0x00, 0x00, 0x00, 0x00, 0x00, 0x00, 0x00, 0x00, 0x00, 0x00, 0x00, 0x00, 0x00, 0x61,
     0x50, 0x4b, 0x05, 0x06, 0x00, 0x00, 0x00, 0x00, 0x01, 0x00, 0x01, 0x00, 0x2f, 0x00, 0x00, 0x00,
     0x21, 0x00, 0x00, 0x00, 0x00, 0x00]"

text \<open>
  An archive of one deflated entry \<open>a\<close>, whose payload is the stored block of \<open>hi\<close>
  and whose directory gives the uncompressed size 5.
\<close>

definition wrongSizeArchive :: buffer where
  "wrongSizeArchive =
    [0x50, 0x4b, 0x03, 0x04, 0x14, 0x00, 0x00, 0x00, 0x08, 0x00, 0x00, 0x00, 0x00, 0x00, 0xac, 0x2a,
     0x93, 0xd8, 0x07, 0x00, 0x00, 0x00, 0x02, 0x00, 0x00, 0x00, 0x01, 0x00, 0x00, 0x00, 0x61, 0x01,
     0x02, 0x00, 0xfd, 0xff, 0x68, 0x69, 0x50, 0x4b, 0x01, 0x02, 0x14, 0x00, 0x14, 0x00, 0x00, 0x00,
     0x08, 0x00, 0x00, 0x00, 0x00, 0x00, 0xac, 0x2a, 0x93, 0xd8, 0x07, 0x00, 0x00, 0x00, 0x05, 0x00,
     0x00, 0x00, 0x01, 0x00, 0x00, 0x00, 0x00, 0x00, 0x00, 0x00, 0x00, 0x00, 0x00, 0x00, 0x00, 0x00,
     0x00, 0x00, 0x00, 0x00, 0x61, 0x50, 0x4b, 0x05, 0x06, 0x00, 0x00, 0x00, 0x00, 0x01, 0x00, 0x01,
     0x00, 0x2f, 0x00, 0x00, 0x00, 0x26, 0x00, 0x00, 0x00, 0x00, 0x00]"

text \<open>An archive of one entry \<open>d/\<close> with the compression method 99.\<close>

definition directoryMethod99Archive :: buffer where
  "directoryMethod99Archive =
    [0x50, 0x4b, 0x03, 0x04, 0x14, 0x00, 0x00, 0x00, 0x63, 0x00, 0x00, 0x00, 0x00, 0x00, 0x00, 0x00,
     0x00, 0x00, 0x00, 0x00, 0x00, 0x00, 0x00, 0x00, 0x00, 0x00, 0x02, 0x00, 0x00, 0x00, 0x64, 0x2f,
     0x50, 0x4b, 0x01, 0x02, 0x14, 0x00, 0x14, 0x00, 0x00, 0x00, 0x63, 0x00, 0x00, 0x00, 0x00, 0x00,
     0x00, 0x00, 0x00, 0x00, 0x00, 0x00, 0x00, 0x00, 0x00, 0x00, 0x00, 0x00, 0x02, 0x00, 0x00, 0x00,
     0x00, 0x00, 0x00, 0x00, 0x00, 0x00, 0x00, 0x00, 0x00, 0x00, 0x00, 0x00, 0x00, 0x00, 0x64, 0x2f,
     0x50, 0x4b, 0x05, 0x06, 0x00, 0x00, 0x00, 0x00, 0x01, 0x00, 0x01, 0x00, 0x30, 0x00, 0x00, 0x00,
     0x20, 0x00, 0x00, 0x00, 0x00, 0x00]"

text \<open>
  An archive of three entries \<open>a\<close>, \<open>b\<close>, \<open>c\<close> holding \<open>hi\<close>, the second with the
  compression method 99, the others stored.
\<close>

definition threeEntryArchive :: buffer where
  "threeEntryArchive =
    [0x50, 0x4b, 0x03, 0x04, 0x14, 0x00, 0x00, 0x00, 0x00, 0x00, 0x00, 0x00, 0x00, 0x00, 0xac, 0x2a,
     0x93, 0xd8, 0x02, 0x00, 0x00, 0x00, 0x02, 0x00, 0x00, 0x00, 0x01, 0x00, 0x00, 0x00, 0x61, 0x68,
     0x69, 0x50, 0x4b, 0x03, 0x04, 0x14, 0x00, 0x00, 0x00, 0x63, 0x00, 0x00, 0x00, 0x00, 0x00, 0xac,
     0x2a, 0x93, 0xd8, 0x02, 0x00, 0x00, 0x00, 0x02, 0x00, 0x00, 0x00, 0x01, 0x00, 0x00, 0x00, 0x62,
     0x68, 0x69, 0x50, 0x4b, 0x03, 0x04, 0x14, 0x00, 0x00, 0x00, 0x00, 0x00, 0x00, 0x00, 0x00, 0x00,
     0xac, 0x2a, 0x93, 0xd8, 0x02, 0x00, 0x00, 0x00, 0x02, 0x00, 0x00, 0x00, 0x01, 0x00, 0x00, 0x00,
     0x63, 0x68, 0x69, 0x50, 0x4b, 0x01, 0x02, 0x14, 0x00, 0x14, 0x00, 0x00, 0x00, 0x00, 0x00, 0x00,
     0x00, 0x00, 0x00, 0xac, 0x2a, 0x93, 0xd8, 0x02, 0x00, 0x00, 0x00, 0x02, 0x00, 0x00, 0x00, 0x01,
     0x00, 0x00, 0x00, 0x00, 0x00, 0x00, 0x00, 0x00, 0x00, 0x00, 0x00, 0x00, 0x00, 0x00, 0x00, 0x00,
     0x00, 0x61, 0x50, 0x4b, 0x01, 0x02, 0x14, 0x00, 0x14, 0x00, 0x00, 0x00, 0x63, 0x00, 0x00, 0x00,
     0x00, 0x00, 0xac, 0x2a, 0x93, 0xd8, 0x02, 0x00, 0x00, 0x00, 0x02, 0x00, 0x00, 0x00, 0x01, 0x00,
     0x00, 0x00, 0x00, 0x00, 0x00, 0x00, 0x00, 0x00, 0x00, 0x00, 0x00, 0x00, 0x21, 0x00, 0x00, 0x00,
     0x62, 0x50, 0x4b, 0x01, 0x02, 0x14, 0x00, 0x14, 0x00, 0x00, 0x00, 0x00, 0x00, 0x00, 0x00, 0x00,
     0x00, 0xac, 0x2a, 0x93, 0xd8, 0x02, 0x00, 0x00, 0x00, 0x02, 0x00, 0x00, 0x00, 0x01, 0x00, 0x00,
     0x00, 0x00, 0x00, 0x00, 0x00, 0x00, 0x00, 0x00, 0x00, 0x00, 0x00, 0x42, 0x00, 0x00, 0x00, 0x63,
     0x50, 0x4b, 0x05, 0x06, 0x00, 0x00, 0x00, 0x00, 0x03, 0x00, 0x03, 0x00, 0x8d, 0x00, 0x00, 0x00,
     0x63, 0x00, 0x00, 0x00, 0x00, 0x00]"

text \<open>An archive of one stored entry \<open>a/../b.txt\<close> holding \<open>hi\<close>.\<close>

definition dotDotInsideArchive :: buffer where
  "dotDotInsideArchive =
    [0x50, 0x4b, 0x03, 0x04, 0x14, 0x00, 0x00, 0x00, 0x00, 0x00, 0x00, 0x00, 0x00, 0x00, 0xac, 0x2a,
     0x93, 0xd8, 0x02, 0x00, 0x00, 0x00, 0x02, 0x00, 0x00, 0x00, 0x0a, 0x00, 0x00, 0x00, 0x61, 0x2f,
     0x2e, 0x2e, 0x2f, 0x62, 0x2e, 0x74, 0x78, 0x74, 0x68, 0x69, 0x50, 0x4b, 0x01, 0x02, 0x14, 0x00,
     0x14, 0x00, 0x00, 0x00, 0x00, 0x00, 0x00, 0x00, 0x00, 0x00, 0xac, 0x2a, 0x93, 0xd8, 0x02, 0x00,
     0x00, 0x00, 0x02, 0x00, 0x00, 0x00, 0x0a, 0x00, 0x00, 0x00, 0x00, 0x00, 0x00, 0x00, 0x00, 0x00,
     0x00, 0x00, 0x00, 0x00, 0x00, 0x00, 0x00, 0x00, 0x61, 0x2f, 0x2e, 0x2e, 0x2f, 0x62, 0x2e, 0x74,
     0x78, 0x74, 0x50, 0x4b, 0x05, 0x06, 0x00, 0x00, 0x00, 0x00, 0x01, 0x00, 0x01, 0x00, 0x38, 0x00,
     0x00, 0x00, 0x2a, 0x00, 0x00, 0x00, 0x00, 0x00]"

text \<open>
  An archive of two entries holding \<open>hi\<close>: \<open>a\<close>, stored, then \<open>a/b\<close> with
  the compression method 99.
\<close>

definition parentIsFileArchive :: buffer where
  "parentIsFileArchive =
    [0x50, 0x4b, 0x03, 0x04, 0x14, 0x00, 0x00, 0x00, 0x00, 0x00, 0x00, 0x00, 0x00, 0x00, 0xac, 0x2a,
     0x93, 0xd8, 0x02, 0x00, 0x00, 0x00, 0x02, 0x00, 0x00, 0x00, 0x01, 0x00, 0x00, 0x00, 0x61, 0x68,
     0x69, 0x50, 0x4b, 0x03, 0x04, 0x14, 0x00, 0x00, 0x00, 0x63, 0x00, 0x00, 0x00, 0x00, 0x00, 0xac,
     0x2a, 0x93, 0xd8, 0x02, 0x00, 0x00, 0x00, 0x02, 0x00, 0x00, 0x00, 0x03, 0x00, 0x00, 0x00, 0x61,
     0x2f, 0x62, 0x68, 0x69, 0x50, 0x4b, 0x01, 0x02, 0x14, 0x00, 0x14, 0x00, 0x00, 0x00, 0x00, 0x00,
     0x00, 0x00, 0x00, 0x00, 0xac, 0x2a, 0x93, 0xd8, 0x02, 0x00, 0x00, 0x00, 0x02, 0x00, 0x00, 0x00,
     0x01, 0x00, 0x00, 0x00, 0x00, 0x00, 0x00, 0x00, 0x00, 0x00, 0x00, 0x00, 0x00, 0x00, 0x00, 0x00,
     0x00, 0x00, 0x61, 0x50, 0x4b, 0x01, 0x02, 0x14, 0x00, 0x14, 0x00, 0x00, 0x00, 0x63, 0x00, 0x00,
     0x00, 0x00, 0x00, 0xac, 0x2a, 0x93, 0xd8, 0x02, 0x00, 0x00, 0x00, 0x02, 0x00, 0x00, 0x00, 0x03,
     0x00, 0x00, 0x00, 0x00, 0x00, 0x00, 0x00, 0x00, 0x00, 0x00, 0x00, 0x00, 0x00, 0x21, 0x00, 0x00,
     0x00, 0x61, 0x2f, 0x62, 0x50, 0x4b, 0x05, 0x06, 0x00, 0x00, 0x00, 0x00, 0x02, 0x00, 0x02, 0x00,
     0x60, 0x00, 0x00, 0x00, 0x44, 0x00, 0x00, 0x00, 0x00, 0x00]"

text \<open>
  An archive of two entries: \<open>a\<close>, stored, holding \<open>hi\<close>, then \<open>a/b\<close> of
  method 8, whose payload is a stored block with a wrong length complement, which zlib
  rejects.
\<close>

definition parentIsFileDeflatedArchive :: buffer where
  "parentIsFileDeflatedArchive =
    [0x50, 0x4b, 0x03, 0x04, 0x14, 0x00, 0x00, 0x00, 0x00, 0x00, 0x00, 0x00, 0x00, 0x00, 0xac, 0x2a,
     0x93, 0xd8, 0x02, 0x00, 0x00, 0x00, 0x02, 0x00, 0x00, 0x00, 0x01, 0x00, 0x00, 0x00, 0x61, 0x68,
     0x69, 0x50, 0x4b, 0x03, 0x04, 0x14, 0x00, 0x00, 0x00, 0x08, 0x00, 0x00, 0x00, 0x00, 0x00, 0xac,
     0x2a, 0x93, 0xd8, 0x07, 0x00, 0x00, 0x00, 0x02, 0x00, 0x00, 0x00, 0x03, 0x00, 0x00, 0x00, 0x61,
     0x2f, 0x62, 0x01, 0x02, 0x00, 0x00, 0x00, 0x68, 0x69, 0x50, 0x4b, 0x01, 0x02, 0x14, 0x00, 0x14,
     0x00, 0x00, 0x00, 0x00, 0x00, 0x00, 0x00, 0x00, 0x00, 0xac, 0x2a, 0x93, 0xd8, 0x02, 0x00, 0x00,
     0x00, 0x02, 0x00, 0x00, 0x00, 0x01, 0x00, 0x00, 0x00, 0x00, 0x00, 0x00, 0x00, 0x00, 0x00, 0x00,
     0x00, 0x00, 0x00, 0x00, 0x00, 0x00, 0x00, 0x61, 0x50, 0x4b, 0x01, 0x02, 0x14, 0x00, 0x14, 0x00,
     0x00, 0x00, 0x08, 0x00, 0x00, 0x00, 0x00, 0x00, 0xac, 0x2a, 0x93, 0xd8, 0x07, 0x00, 0x00, 0x00,
     0x02, 0x00, 0x00, 0x00, 0x03, 0x00, 0x00, 0x00, 0x00, 0x00, 0x00, 0x00, 0x00, 0x00, 0x00, 0x00,
     0x00, 0x00, 0x21, 0x00, 0x00, 0x00, 0x61, 0x2f, 0x62, 0x50, 0x4b, 0x05, 0x06, 0x00, 0x00, 0x00,
     0x00, 0x02, 0x00, 0x02, 0x00, 0x60, 0x00, 0x00, 0x00, 0x49, 0x00, 0x00, 0x00, 0x00, 0x00]"

text \<open>
  An archive of one entry \<open>b\<close> with the compression method 99, whose local header
  does not start with the signature.
\<close>

definition wrongLocalSignatureArchive :: buffer where
  "wrongLocalSignatureArchive =
    [0x51, 0x4b, 0x03, 0x04, 0x14, 0x00, 0x00, 0x00, 0x63, 0x00, 0x00, 0x00, 0x00, 0x00, 0xac, 0x2a,
     0x93, 0xd8, 0x02, 0x00, 0x00, 0x00, 0x02, 0x00, 0x00, 0x00, 0x01, 0x00, 0x00, 0x00, 0x62, 0x68,
     0x69, 0x50, 0x4b, 0x01, 0x02, 0x14, 0x00, 0x14, 0x00, 0x00, 0x00, 0x63, 0x00, 0x00, 0x00, 0x00,
     0x00, 0xac, 0x2a, 0x93, 0xd8, 0x02, 0x00, 0x00, 0x00, 0x02, 0x00, 0x00, 0x00, 0x01, 0x00, 0x00,
     0x00, 0x00, 0x00, 0x00, 0x00, 0x00, 0x00, 0x00, 0x00, 0x00, 0x00, 0x00, 0x00, 0x00, 0x00, 0x62,
     0x50, 0x4b, 0x05, 0x06, 0x00, 0x00, 0x00, 0x00, 0x01, 0x00, 0x01, 0x00, 0x2f, 0x00, 0x00, 0x00,
     0x21, 0x00, 0x00, 0x00, 0x00, 0x00]"

text \<open>
  An archive of one stored entry holding \<open>hi\<close> whose name is the single byte
  \<open>ff\<close>, which is not UTF-8.
\<close>

definition invalidNameArchive :: buffer where
  "invalidNameArchive =
    [0x50, 0x4b, 0x03, 0x04, 0x14, 0x00, 0x00, 0x00, 0x00, 0x00, 0x00, 0x00, 0x00, 0x00, 0xac, 0x2a,
     0x93, 0xd8, 0x02, 0x00, 0x00, 0x00, 0x02, 0x00, 0x00, 0x00, 0x01, 0x00, 0x00, 0x00, 0xff, 0x68,
     0x69, 0x50, 0x4b, 0x01, 0x02, 0x14, 0x00, 0x14, 0x00, 0x00, 0x00, 0x00, 0x00, 0x00, 0x00, 0x00,
     0x00, 0xac, 0x2a, 0x93, 0xd8, 0x02, 0x00, 0x00, 0x00, 0x02, 0x00, 0x00, 0x00, 0x01, 0x00, 0x00,
     0x00, 0x00, 0x00, 0x00, 0x00, 0x00, 0x00, 0x00, 0x00, 0x00, 0x00, 0x00, 0x00, 0x00, 0x00, 0xff,
     0x50, 0x4b, 0x05, 0x06, 0x00, 0x00, 0x00, 0x00, 0x01, 0x00, 0x01, 0x00, 0x2f, 0x00, 0x00, 0x00,
     0x21, 0x00, 0x00, 0x00, 0x00, 0x00]"

section \<open>The decoding of text: properties\<close>

text \<open>
  Bytes below \<open>0x80\<close> are decoded to themselves, and only they give a decoded text
  that is all below \<open>0x80\<close>. So the test of the magic is a test of the first four
  bytes, and a name of ASCII characters is well formed.
\<close>

lemma utf8Replace_ascii: "\<forall>b \<in> set bs. unat b < 0x80 \<Longrightarrow> utf8Replace bs = bs"
  by (induction bs) auto

lemma utf8Replace_head:
  "\<not> unat b < 0x80 \<Longrightarrow>
   utf8Replace (b # bs) \<noteq> [] \<and> (hd (utf8Replace (b # bs)) = b \<or> hd (utf8Replace (b # bs)) = 0xEF)"
  by (simp add: replacementCharacter_def split: list.splits)

lemma utf8Replace_ascii_only:
  "\<forall>c \<in> set (utf8Replace bs). unat c < 0x80 \<Longrightarrow> utf8Replace bs = bs"
proof (induction bs)
  case Nil
  then show ?case by simp
next
  case (Cons b bs)
  show ?case
  proof (cases "unat b < 0x80")
    case True
    with Cons show ?thesis by simp
  next
    case False
    from utf8Replace_head [OF False, of bs]
    have ne: "utf8Replace (b # bs) \<noteq> []"
      and hd: "hd (utf8Replace (b # bs)) = b \<or> hd (utf8Replace (b # bs)) = 0xEF" by simp_all
    from ne have "hd (utf8Replace (b # bs)) \<in> set (utf8Replace (b # bs))" by (rule hd_in_set)
    with Cons.prems have "unat (hd (utf8Replace (b # bs))) < 0x80" by blast
    with hd False show ?thesis by auto
  qed
qed

lemma byte_char_inj:
  "map (\<lambda>b. char_of (unat b)) xs = map (\<lambda>b. char_of (unat b)) ys \<longleftrightarrow> xs = (ys :: buffer)"
proof -
  have "inj (\<lambda>b :: byte. char_of (unat b) :: char)"
  proof (rule injI)
    fix x y :: byte
    assume "(char_of (unat x) :: char) = char_of (unat y)"
    then have "of_char (char_of (unat x) :: char) = (of_char (char_of (unat y) :: char) :: nat)"
      by simp
    moreover have "unat x < 256" "unat y < 256"
      using unsigned_less [of x, where ?'a = nat] unsigned_less [of y, where ?'a = nat] by simp_all
    ultimately have "unat x = unat y" by (simp add: of_char_of)
    then show "x = y" by (simp add: word_unat_eq_iff)
  qed
  then show ?thesis by (simp add: inj_map_eq_map)
qed

lemma magic_is_byte_test:
  "toString crxBuffer 0 4 = ''Cr24'' \<longleftrightarrow> take 4 crxBuffer = [0x43, 0x72, 0x32, 0x34]"
proof -
  have lit: "map (\<lambda>b. char_of (unat b)) [0x43, 0x72, 0x32, 0x34 :: byte] = ''Cr24''"
    by (simp add: char_of_eq_iff)
  have "toString crxBuffer 0 4 = ''Cr24''
      \<longleftrightarrow> utf8Replace (take 4 crxBuffer) = [0x43, 0x72, 0x32, 0x34]"
    unfolding lit [symmetric] toString_def slice_buf_def by (simp only: byte_char_inj minus_nat.diff_0 drop_0)
  also have "\<dots> \<longleftrightarrow> take 4 crxBuffer = [0x43, 0x72, 0x32, 0x34]"
  proof
    assume h: "utf8Replace (take 4 crxBuffer) = [0x43, 0x72, 0x32, 0x34]"
    then have "\<forall>c \<in> set (utf8Replace (take 4 crxBuffer)). unat c < 0x80" by simp
    then have "utf8Replace (take 4 crxBuffer) = take 4 crxBuffer" by (rule utf8Replace_ascii_only)
    with h show "take 4 crxBuffer = [0x43, 0x72, 0x32, 0x34]" by simp
  next
    assume "take 4 crxBuffer = [0x43, 0x72, 0x32, 0x34]"
    then show "utf8Replace (take 4 crxBuffer) = [0x43, 0x72, 0x32, 0x34]"
      by (simp add: inRange_def)
  qed
  finally show ?thesis .
qed

lemma wellFormedName_ascii:
  assumes "\<forall>c \<in> set n. of_char c < (128 :: nat)"
  shows "wellFormedName n"
  unfolding wellFormedName_def
proof (rule utf8Replace_ascii)
  show "\<forall>b \<in> set (nameBytes n). unat b < 0x80"
    using assms by (auto simp: nameBytes_def unat_of_nat)
qed

section \<open>The container header: properties\<close>

lemma bindE_Inr [simp]: "bindE (Inr x) f = f x"
  by (simp add: bindE_def)

lemma bindE_Inl [simp]: "bindE (Inl e) f = Inl e"
  by (simp add: bindE_def)

text \<open>
  C2. On a buffer with the magic, a version field 2 with key length P and signature length
  S gives the offset 16 + P + S, a version field 3 or 4 with header size H gives 12 + H,
  and any other version field fails with UnsupportedVersion carrying the version.
\<close>

theorem zipStartOffset_by_version:
  assumes "toString crxBuffer 0 4 = ''Cr24''"
    and "readUInt32LE crxBuffer 4 = Inr version"
  shows "(version = 2 \<and> readUInt32LE crxBuffer 8 = Inr P \<and> readUInt32LE crxBuffer 12 = Inr S
            \<longrightarrow> zipStartOffset crxBuffer = Inr (16 + P + S))
       \<and> ((version = 3 \<or> version = 4) \<and> readUInt32LE crxBuffer 8 = Inr H
            \<longrightarrow> zipStartOffset crxBuffer = Inr (12 + H))
       \<and> (version \<noteq> 2 \<and> version \<noteq> 3 \<and> version \<noteq> 4
            \<longrightarrow> zipStartOffset crxBuffer = Inl (UnsupportedVersion version))"
  using assms by (auto simp: zipStartOffset_def)

theorem zipStartOffset_by_version_witness:
  "zipStartOffset [0x43, 0x72, 0x32, 0x34, 2, 0, 0, 0, 5, 1, 0, 0, 7, 0, 0, 0] = Inr (16 + 261 + 7)
   \<and> zipStartOffset [0x43, 0x72, 0x32, 0x34, 3, 0, 0, 0, 9, 0, 0, 0] = Inr (12 + 9)
   \<and> zipStartOffset [0x43, 0x72, 0x32, 0x34, 7, 0, 0, 0] = Inl (UnsupportedVersion 7)"
proof -
  have "zipStartOffset [0x43, 0x72, 0x32, 0x34, 2, 0, 0, 0, 5, 1, 0, 0, 7, 0, 0, 0] = Inr (16 + 261 + 7)"
    using zipStartOffset_by_version
      [of "[0x43, 0x72, 0x32, 0x34, 2, 0, 0, 0, 5, 1, 0, 0, 7, 0, 0, 0]" 2 261 7 0]
    by (simp add: toString_def slice_buf_def inRange_def char_of_eq_iff readUInt32LE_def)
  moreover have "zipStartOffset [0x43, 0x72, 0x32, 0x34, 3, 0, 0, 0, 9, 0, 0, 0] = Inr (12 + 9)"
    using zipStartOffset_by_version
      [of "[0x43, 0x72, 0x32, 0x34, 3, 0, 0, 0, 9, 0, 0, 0]" 3 0 0 9]
    by (simp add: toString_def slice_buf_def inRange_def char_of_eq_iff readUInt32LE_def)
  moreover have "zipStartOffset [0x43, 0x72, 0x32, 0x34, 7, 0, 0, 0] = Inl (UnsupportedVersion 7)"
    using zipStartOffset_by_version [of "[0x43, 0x72, 0x32, 0x34, 7, 0, 0, 0]" 7 0 0 0]
    by (simp add: toString_def slice_buf_def inRange_def char_of_eq_iff readUInt32LE_def)
  ultimately show ?thesis by blast
qed

lemma drop_is_range: "drop n xs = map (\<lambda>i. xs ! i) [n..<length xs]"
proof -
  have "drop n xs = drop n (map (\<lambda>i. xs ! i) [0..<length xs])" by (simp add: map_nth)
  also have "\<dots> = map (\<lambda>i. xs ! i) [n..<length xs]" by (simp add: drop_map)
  finally show ?thesis .
qed

text \<open>
  C8. Once the offset is computed (the magic is right, the version is supported and its
  fields are there): an offset at or beyond the length of the buffer fails with
  MalformedHeader, and a smaller one yields the bytes of the buffer from the offset to the
  end, on which the extraction then runs.
\<close>

theorem stripContainerHeader_range:
  assumes "zipStartOffset crxBuffer = Inr off"
  shows "(off \<ge> length crxBuffer \<longrightarrow>
            stripContainerHeader crxBuffer = Inl MalformedHeader
          \<and> extractCrxToFolder fsys inflate crxBuffer outFolder s = (Inl MalformedHeader, s))
       \<and> (off < length crxBuffer \<longrightarrow>
            stripContainerHeader crxBuffer = Inr (map (\<lambda>i. crxBuffer ! i) [off..<length crxBuffer])
          \<and> extractCrxToFolder fsys inflate crxBuffer outFolder s =
              parseZipCentralDirectory fsys inflate
                (map (\<lambda>i. crxBuffer ! i) [off..<length crxBuffer]) outFolder s)"
  using assms
  by (simp add: stripContainerHeader_def extractCrxToFolder_def drop_is_range [symmetric])

theorem stripContainerHeader_range_witness:
  "stripContainerHeader [0x43, 0x72, 0x32, 0x34, 3, 0, 0, 0, 1, 0, 0, 0, 0xAA] = Inl MalformedHeader
   \<and> stripContainerHeader [0x43, 0x72, 0x32, 0x34, 3, 0, 0, 0, 1, 0, 0, 0, 0xAA, 0xBB, 0xCC]
       = Inr [0xBB, 0xCC]"
proof -
  have a: "zipStartOffset [0x43, 0x72, 0x32, 0x34, 3, 0, 0, 0, 1, 0, 0, 0, 0xAA] = Inr 13"
    by (simp add: zipStartOffset_def toString_def slice_buf_def inRange_def char_of_eq_iff
        readUInt32LE_def)
  have b: "zipStartOffset [0x43, 0x72, 0x32, 0x34, 3, 0, 0, 0, 1, 0, 0, 0, 0xAA, 0xBB, 0xCC] = Inr 13"
    by (simp add: zipStartOffset_def toString_def slice_buf_def inRange_def char_of_eq_iff
        readUInt32LE_def)
  show ?thesis
    using stripContainerHeader_range [OF a, of plainFs]
      stripContainerHeader_range [OF b, of plainFs]
    by (simp add: upt_rec)
qed

section \<open>The directory record: properties\<close>

lemma readUInt32LE_in_range:
  "offset + 4 \<le> length buf \<Longrightarrow> \<exists>w. readUInt32LE buf offset = Inr w"
  by (simp add: readUInt32LE_def)

lemma findEocd_from:
  "i \<le> int (length zipBuffer) - 4 \<Longrightarrow>
   findEocd zipBuffer i =
     Inr (if \<exists>q \<in> {max 0 (int (length zipBuffer) - 65557) .. i}. signatureAt zipBuffer q
          then Max {q \<in> {max 0 (int (length zipBuffer) - 65557) .. i}. signatureAt zipBuffer q}
          else - 1)"
proof (induction zipBuffer i rule: findEocd.induct)
  case (1 zipBuffer i)
  let ?lo = "max 0 (int (length zipBuffer) - 65557)"
  show ?case
  proof (cases "i \<ge> ?lo")
    case False
    then have "{?lo .. i} = {}" by simp
    with False show ?thesis by (subst findEocd.simps) auto
  next
    case True
    with "1.prems" have "nat i + 4 \<le> length zipBuffer" by linarith
    then obtain w where w: "readUInt32LE zipBuffer (nat i) = Inr w"
      using readUInt32LE_in_range by blast
    show ?thesis
    proof (cases "w = eocdSig")
      case hit: True
      with w have at: "signatureAt zipBuffer i" by (simp add: signatureAt_def)
      have "Max {q \<in> {?lo .. i}. signatureAt zipBuffer q} = i"
      proof (rule Max_eqI)
        show "finite {q \<in> {?lo .. i}. signatureAt zipBuffer q}"
          by (rule finite_Collect_conjI) simp
        show "\<And>y. y \<in> {q \<in> {?lo .. i}. signatureAt zipBuffer q} \<Longrightarrow> y \<le> i" by simp
        show "i \<in> {q \<in> {?lo .. i}. signatureAt zipBuffer q}" using at True by simp
      qed
      moreover have "\<exists>q \<in> {?lo .. i}. signatureAt zipBuffer q"
        using at True by auto
      ultimately show ?thesis
        using True w hit by (subst findEocd.simps) auto
    next
      case miss: False
      with w have nat: "\<not> signatureAt zipBuffer i" by (simp add: signatureAt_def)
      have eq: "{q \<in> {?lo .. i}. signatureAt zipBuffer q}
              = {q \<in> {?lo .. i - 1}. signatureAt zipBuffer q}"
      proof (rule set_eqI)
        fix q
        show "q \<in> {q \<in> {?lo .. i}. signatureAt zipBuffer q}
          \<longleftrightarrow> q \<in> {q \<in> {?lo .. i - 1}. signatureAt zipBuffer q}"
          using nat by (cases "q = i") auto
      qed
      have ex: "(\<exists>q \<in> {?lo .. i}. signatureAt zipBuffer q)
              = (\<exists>q \<in> {?lo .. i - 1}. signatureAt zipBuffer q)"
        using eq by blast
      have "findEocd zipBuffer i = findEocd zipBuffer (i - 1)"
        using True w miss by (subst findEocd.simps) auto
      also have "\<dots> = Inr (if \<exists>q \<in> {?lo .. i - 1}. signatureAt zipBuffer q
          then Max {q \<in> {?lo .. i - 1}. signatureAt zipBuffer q} else - 1)"
        using "1.IH" [OF True w miss] "1.prems" by simp
      finally show ?thesis using eq ex by simp
    qed
  qed
qed

lemma findEocd_window:
  "findEocd zipBuffer (int (length zipBuffer) - 4) =
     Inr (if \<exists>q \<in> searchWindow zipBuffer. signatureAt zipBuffer q
          then Max {q \<in> searchWindow zipBuffer. signatureAt zipBuffer q}
          else - 1)"
  unfolding searchWindow_def by (rule findEocd_from) simp

text \<open>
  C3. The scan from \<open>length - 4\<close> downwards returns the greatest position of the window
  \<open>max(0, length - 65557) .. length - 4\<close> whose word is the signature, that is the
  occurrence nearest the end of the view, and \<open>-1\<close> when the window holds none; in that
  case the extraction fails with DirectoryNotFound.
\<close>

theorem findEocd_nearest_end:
  "findEocd zipBuffer (int (length zipBuffer) - 4) =
     Inr (if \<exists>q \<in> searchWindow zipBuffer. signatureAt zipBuffer q
          then Max {q \<in> searchWindow zipBuffer. signatureAt zipBuffer q}
          else - 1)
   \<and> ((\<forall>q \<in> searchWindow zipBuffer. \<not> signatureAt zipBuffer q) \<longrightarrow>
        parseZipCentralDirectory fsys inflate zipBuffer outFolder s = (Inl DirectoryNotFound, s))"
  using findEocd_window [of zipBuffer]
  by (simp add: parseZipCentralDirectory_def readDirectory_def)

theorem findEocd_nearest_end_witness:
  "findEocd [0x50, 0x4b, 0x05, 0x06, 0x50, 0x4b, 0x05, 0x06, 0, 0] 6 = Inr 4
   \<and> parseZipCentralDirectory plainFs (\<lambda>d. None) [1, 2, 3, 4, 5] ''out'' emptyDisk
       = (Inl DirectoryNotFound, emptyDisk)"
proof -
  let ?b = "[0x50, 0x4b, 0x05, 0x06, 0x50, 0x4b, 0x05, 0x06, 0, 0] :: buffer"
  let ?c = "[1, 2, 3, 4, 5] :: buffer"
  have W: "searchWindow ?b = {0..6}" by (simp add: searchWindow_def)
  have at4: "signatureAt ?b 4" by (simp add: signatureAt_def readUInt32LE_def eocdSig_def)
  have no5: "\<not> signatureAt ?b 5" by (simp add: signatureAt_def readUInt32LE_def eocdSig_def)
  have no6: "\<not> signatureAt ?b 6" by (simp add: signatureAt_def readUInt32LE_def eocdSig_def)
  have "Max {q \<in> {0..6}. signatureAt ?b q} = 4"
  proof (rule Max_eqI)
    show "finite {q \<in> {0..6}. signatureAt ?b q}" by (rule finite_Collect_conjI) simp
    show "4 \<in> {q \<in> {0..6}. signatureAt ?b q}" using at4 by simp
    fix y assume y: "y \<in> {q \<in> {0..6}. signatureAt ?b q}"
    show "y \<le> 4"
    proof (rule ccontr)
      assume "\<not> y \<le> 4"
      with y have "y = 5 \<or> y = 6" by auto
      with y no5 no6 show False by auto
    qed
  qed
  moreover have "\<exists>q \<in> {0..6}. signatureAt ?b q" using at4 by auto
  ultimately have one: "findEocd ?b 6 = Inr 4"
    using findEocd_nearest_end [of ?b plainFs] W by simp
  have V: "searchWindow ?c = {0..1}" by (simp add: searchWindow_def)
  have "\<forall>q \<in> searchWindow ?c. \<not> signatureAt ?c q"
  proof
    fix q assume "q \<in> searchWindow ?c"
    with V have "q = 0 \<or> q = 1" by auto
    then show "\<not> signatureAt ?c q"
      by (auto simp: signatureAt_def readUInt32LE_def eocdSig_def)
  qed
  then have two: "parseZipCentralDirectory plainFs (\<lambda>d. None) ?c ''out'' emptyDisk
      = (Inl DirectoryNotFound, emptyDisk)"
    using findEocd_nearest_end [of ?c plainFs "\<lambda>d. None" "''out''" emptyDisk] by blast
  from one two show ?thesis by simp
qed

lemma readUInt16LE_error: "readUInt16LE buf off = Inl e \<Longrightarrow> e = RangeError"
  by (auto simp: readUInt16LE_def split: if_splits)

lemma readUInt32LE_error: "readUInt32LE buf off = Inl e \<Longrightarrow> e = RangeError"
  by (auto simp: readUInt32LE_def split: if_splits)

lemma bindE_InlE:
  assumes "bindE m f = Inl e"
  obtains "m = Inl e" | x where "m = Inr x" "f x = Inl e"
  using assms by (cases m) auto

lemma readCentralHeader_error:
  assumes "readCentralHeader zipBuffer ptr = Inl e"
  shows "e = RangeError \<or> e = DirectorySignatureMismatch ptr"
  using assms unfolding readCentralHeader_def
  by (auto elim!: bindE_InlE dest: readUInt16LE_error readUInt32LE_error split: if_splits)

lemma readCentralDirectory_error:
  "readCentralDirectory zipBuffer ptr n = Inl e \<Longrightarrow>
   e = RangeError \<or> (\<exists>q. e = DirectorySignatureMismatch q)"
proof (induction n arbitrary: ptr)
  case 0
  then show ?case by simp
next
  case (Suc n)
  show ?case
  proof (cases "readCentralHeader zipBuffer ptr")
    case (Inl e1)
    with Suc.prems have "e1 = e" by simp
    with Inl show ?thesis using readCentralHeader_error by blast
  next
    case (Inr x)
    obtain f ptr' where x: "x = (f, ptr')" by (cases x)
    with Inr Suc.prems
    have "bindE (readCentralDirectory zipBuffer ptr' n) (\<lambda>files. Inr (f # files)) = Inl e"
      by simp
    then have "readCentralDirectory zipBuffer ptr' n = Inl e"
      by (auto elim: bindE_InlE)
    then show ?thesis by (rule Suc.IH)
  qed
qed

lemma readFileData_error:
  assumes "readFileData zipBuffer file = Inl e"
  shows "e = RangeError \<or> e = LocalHeaderSignatureMismatch (localHeaderOffset file) (filename file)"
  using assms unfolding readFileData_def Let_def
  by (auto elim!: bindE_InlE dest: readUInt16LE_error readUInt32LE_error split: if_splits)

lemma mkdirSync_error:
  "mkdirSync fsys p s = (Inl e, s') \<Longrightarrow> \<exists>code. e = FileSystemError code"
  by (auto simp: mkdirSync_def split: prod.splits option.splits)

lemma writeFileSync_error:
  "writeFileSync fsys p d s = (Inl e, s') \<Longrightarrow> \<exists>code. e = FileSystemError code"
  by (auto simp: writeFileSync_def split: prod.splits option.splits)

lemma extractFile_error:
  assumes "extractFile fsys inflate zipBuffer outFolder file s = (Inl e, s')"
  shows "e = RangeError
       \<or> e = LocalHeaderSignatureMismatch (localHeaderOffset file) (filename file)
       \<or> e = DecompressionFailed
       \<or> e = UnsupportedCompressionMethod (method file) (filename file)
       \<or> (\<exists>code. e = FileSystemError code)"
  using assms unfolding extractFile_def Let_def inflateRawSync_def
  by (auto dest: readFileData_error mkdirSync_error writeFileSync_error
      split: if_splits sum.splits option.splits prod.splits)

lemma extractFiles_error:
  "extractFiles fsys inflate zipBuffer outFolder files s = (Inl e, s') \<Longrightarrow>
   e = RangeError \<or> e = DecompressionFailed \<or> (\<exists>code. e = FileSystemError code)
   \<or> (\<exists>file \<in> set files.
         e = LocalHeaderSignatureMismatch (localHeaderOffset file) (filename file)
       \<or> e = UnsupportedCompressionMethod (method file) (filename file))"
proof (induction files arbitrary: s)
  case Nil
  then show ?case by simp
next
  case (Cons f files)
  obtain r s1 where step: "extractFile fsys inflate zipBuffer outFolder f s = (r, s1)"
    by (cases "extractFile fsys inflate zipBuffer outFolder f s")
  show ?case
  proof (cases r)
    case (Inl e1)
    with step Cons.prems have "e1 = e" by simp
    with step Inl show ?thesis
      using extractFile_error [of fsys inflate zipBuffer outFolder f s e s1] by auto
  next
    case (Inr u)
    with step Cons.prems
    have "extractFiles fsys inflate zipBuffer outFolder files s1 = (Inl e, s')"
      by simp
    from Cons.IH [OF this] show ?thesis by auto
  qed
qed

text \<open>
  C6. Once the record is found and its three fields are read: the extraction goes on to
  the entries of the directory exactly when \<open>cdOffset + cdSize\<close> is at most the length
  of the view, a sum equal to the length included, and it fails with DirectoryOutOfRange
  when the sum is larger, by one byte already. No later stage reports DirectoryOutOfRange.
\<close>

theorem directory_range_check:
  assumes "findEocd zipBuffer (int (length zipBuffer) - 4) = Inr eocdPos" and "0 \<le> eocdPos"
    and "readUInt16LE zipBuffer (nat eocdPos + 10) = Inr totalCD"
    and "readUInt32LE zipBuffer (nat eocdPos + 12) = Inr cdSize"
    and "readUInt32LE zipBuffer (nat eocdPos + 16) = Inr cdOffset"
  shows "(cdOffset + cdSize \<le> length zipBuffer \<longrightarrow>
            readDirectory zipBuffer = readCentralDirectory zipBuffer cdOffset totalCD
          \<and> fst (parseZipCentralDirectory fsys inflate zipBuffer outFolder s)
              \<noteq> Inl DirectoryOutOfRange)
       \<and> (cdOffset + cdSize > length zipBuffer \<longrightarrow>
            parseZipCentralDirectory fsys inflate zipBuffer outFolder s
              = (Inl DirectoryOutOfRange, s))"
proof (intro conjI impI)
  assume le: "cdOffset + cdSize \<le> length zipBuffer"
  with assms show rd: "readDirectory zipBuffer = readCentralDirectory zipBuffer cdOffset totalCD"
    by (simp add: readDirectory_def)
  show "fst (parseZipCentralDirectory fsys inflate zipBuffer outFolder s)
          \<noteq> Inl DirectoryOutOfRange"
  proof (cases "readCentralDirectory zipBuffer cdOffset totalCD")
    case (Inl e)
    with rd readCentralDirectory_error [OF Inl] show ?thesis
      by (auto simp: parseZipCentralDirectory_def)
  next
    case (Inr files)
    obtain r0 s0 where root: "mkdirSync fsys outFolder s = (r0, s0)"
      by (cases "mkdirSync fsys outFolder s")
    show ?thesis
    proof (cases r0)
      case (Inl e)
      with root mkdirSync_error [of fsys outFolder s e s0] rd Inr show ?thesis
        by (auto simp: parseZipCentralDirectory_def)
    next
      case made: (Inr u)
      obtain r s' where run: "extractFiles fsys inflate zipBuffer outFolder files s0 = (r, s')"
        by (cases "extractFiles fsys inflate zipBuffer outFolder files s0")
      have "r \<noteq> Inl DirectoryOutOfRange"
      proof
        assume "r = Inl DirectoryOutOfRange"
        with run
          extractFiles_error [of fsys inflate zipBuffer outFolder files s0 DirectoryOutOfRange s']
        show False by auto
      qed
      with rd Inr root made run show ?thesis by (simp add: parseZipCentralDirectory_def)
    qed
  qed
next
  assume "cdOffset + cdSize > length zipBuffer"
  with assms show "parseZipCentralDirectory fsys inflate zipBuffer outFolder s
      = (Inl DirectoryOutOfRange, s)"
    by (simp add: parseZipCentralDirectory_def readDirectory_def)
qed

theorem directory_range_check_witness:
  "parseZipCentralDirectory plainFs (\<lambda>d. None)
     [0x50, 0x4b, 0x05, 0x06, 0, 0, 0, 0, 0, 0, 0, 0, 22, 0, 0, 0, 0, 0, 0, 0, 0, 0] ''out''
     emptyDisk
     = (Inr (), emptyDisk(''out'' \<mapsto> Directory))
   \<and> parseZipCentralDirectory plainFs (\<lambda>d. None)
     [0x50, 0x4b, 0x05, 0x06, 0, 0, 0, 0, 0, 0, 0, 0, 23, 0, 0, 0, 0, 0, 0, 0, 0, 0] ''out''
     emptyDisk
     = (Inl DirectoryOutOfRange, emptyDisk)"
proof -
  let ?b = "[0x50, 0x4b, 0x05, 0x06, 0, 0, 0, 0, 0, 0, 0, 0, 22, 0, 0, 0, 0, 0, 0, 0, 0, 0] :: buffer"
  let ?c = "[0x50, 0x4b, 0x05, 0x06, 0, 0, 0, 0, 0, 0, 0, 0, 23, 0, 0, 0, 0, 0, 0, 0, 0, 0] :: buffer"
  have fb: "findEocd ?b (int (length ?b) - 4) = Inr 0"
    by (simp add: findEocd.simps readUInt32LE_def eocdSig_def)
  have fc: "findEocd ?c (int (length ?c) - 4) = Inr 0"
    by (simp add: findEocd.simps readUInt32LE_def eocdSig_def)
  have "readDirectory ?b = readCentralDirectory ?b 0 0"
    using directory_range_check [OF fb, of 0 22 0 plainFs]
    by (simp add: readUInt16LE_def readUInt32LE_def)
  then have one: "parseZipCentralDirectory plainFs (\<lambda>d. None) ?b ''out'' emptyDisk
      = (Inr (), emptyDisk(''out'' \<mapsto> Directory))"
    by (simp add: parseZipCentralDirectory_def mkdirSync_def plainFs_def plainMkdir_def
        pathPrefixes_def isFileAt_def emptyDisk_def)
  have two: "parseZipCentralDirectory plainFs (\<lambda>d. None) ?c ''out'' emptyDisk
      = (Inl DirectoryOutOfRange, emptyDisk)"
    using directory_range_check [OF fc, of 0 23 0 plainFs "\<lambda>d. None" "''out''" emptyDisk]
    by (simp add: readUInt16LE_def readUInt32LE_def)
  from one two show ?thesis by simp
qed

lemma readDirectory_cut_record:
  assumes "findEocd zipBuffer (int (length zipBuffer) - 4) = Inr eocdPos" and "0 \<le> eocdPos"
    and "nat eocdPos + 20 > length zipBuffer"
  shows "readDirectory zipBuffer = Inl RangeError"
proof (cases "nat eocdPos + 12 \<le> length zipBuffer")
  case False
  then have "readUInt16LE zipBuffer (nat eocdPos + 10) = Inl RangeError"
    by (simp add: readUInt16LE_def)
  with assms show ?thesis by (simp add: readDirectory_def)
next
  case True
  then obtain totalCD where t: "readUInt16LE zipBuffer (nat eocdPos + 10) = Inr totalCD"
    by (simp add: readUInt16LE_def)
  show ?thesis
  proof (cases "nat eocdPos + 16 \<le> length zipBuffer")
    case False
    then have "readUInt32LE zipBuffer (nat eocdPos + 12) = Inl RangeError"
      by (simp add: readUInt32LE_def)
    with assms t show ?thesis by (simp add: readDirectory_def)
  next
    case True
    then obtain cdSize where c: "readUInt32LE zipBuffer (nat eocdPos + 12) = Inr cdSize"
      by (simp add: readUInt32LE_def)
    from assms(3) have "readUInt32LE zipBuffer (nat eocdPos + 16) = Inl RangeError"
      by (simp add: readUInt32LE_def)
    with assms t c show ?thesis by (simp add: readDirectory_def)
  qed
qed

text \<open>
  C10. Nothing checks that the position found leaves room for the record: when it lies
  within the last 19 bytes of the view, one of the reads of the entry count, the size and
  the offset leaves the view, and the extraction ends with the RangeError of \<open>Buffer\<close>,
  which is none of the failures of the taxonomy. The witness is a view of 8 bytes that
  starts with the signature.
\<close>

theorem eocd_record_not_bounded:
  assumes "findEocd zipBuffer (int (length zipBuffer) - 4) = Inr eocdPos" and "0 \<le> eocdPos"
    and "nat eocdPos + 20 > length zipBuffer"
  shows "parseZipCentralDirectory fsys inflate zipBuffer outFolder s = (Inl RangeError, s)"
proof -
  have "readDirectory zipBuffer = Inl RangeError"
    using assms by (rule readDirectory_cut_record)
  then show ?thesis by (simp add: parseZipCentralDirectory_def)
qed

theorem eocd_record_not_bounded_witness:
  "parseZipCentralDirectory plainFs (\<lambda>d. None) [0x50, 0x4b, 0x05, 0x06, 0, 0, 0, 0] ''out''
     emptyDisk
     = (Inl RangeError, emptyDisk)"
proof -
  let ?b = "[0x50, 0x4b, 0x05, 0x06, 0, 0, 0, 0] :: buffer"
  have f: "findEocd ?b (int (length ?b) - 4) = Inr 0"
    by (simp add: findEocd.simps readUInt32LE_def eocdSig_def)
  show ?thesis
    using eocd_record_not_bounded [OF f, of plainFs "\<lambda>d. None" "''out''" emptyDisk] by simp
qed

lemma readUInt16LE_cong:
  assumes "length b' = length b" and "\<And>i. off \<le> i \<Longrightarrow> i < off + 2 \<Longrightarrow> i < length b \<Longrightarrow> b' ! i = b ! i"
  shows "readUInt16LE b' off = readUInt16LE b off"
  using assms by (simp add: readUInt16LE_def)

lemma readUInt32LE_cong:
  assumes "length b' = length b" and "\<And>i. off \<le> i \<Longrightarrow> i < off + 4 \<Longrightarrow> i < length b \<Longrightarrow> b' ! i = b ! i"
  shows "readUInt32LE b' off = readUInt32LE b off"
  using assms by (simp add: readUInt32LE_def)

lemma slice_buf_cong:
  assumes "length b' = length b" and "\<And>i. start \<le> i \<Longrightarrow> i < length b \<Longrightarrow> b' ! i = b ! i"
  shows "slice_buf b' start end = slice_buf b start end"
  unfolding slice_buf_def
  using assms by (intro nth_equalityI) auto

lemma readFileData_start:
  assumes "readFileData zipBuffer f = Inr fileData"
  shows "\<exists>start. payloadStart zipBuffer f = Inr start
           \<and> fileData = slice_buf zipBuffer start (start + compSize f)"
  using assms unfolding readFileData_def payloadStart_def Let_def
  by (auto simp: bindE_def split: sum.splits if_splits)

lemma readFileData_ignores_local_sizes:
  assumes "sameOutsideLocalSizes zipBuffer' zipBuffer f"
  shows "readFileData zipBuffer' f = readFileData zipBuffer f"
proof -
  let ?o = "localHeaderOffset f"
  from assms have len: "length zipBuffer' = length zipBuffer"
    and same: "\<And>i. i < length zipBuffer \<Longrightarrow> i < ?o + 18 \<or> ?o + 26 \<le> i \<Longrightarrow> zipBuffer' ! i = zipBuffer ! i"
    by (auto simp: sameOutsideLocalSizes_def)
  have r0: "readUInt32LE zipBuffer' ?o = readUInt32LE zipBuffer ?o"
    by (rule readUInt32LE_cong [OF len]) (simp add: same)
  have r4: "readUInt16LE zipBuffer' (?o + 4) = readUInt16LE zipBuffer (?o + 4)"
    by (rule readUInt16LE_cong [OF len]) (simp add: same)
  have r6: "readUInt16LE zipBuffer' (?o + 6) = readUInt16LE zipBuffer (?o + 6)"
    by (rule readUInt16LE_cong [OF len]) (simp add: same)
  have r8: "readUInt16LE zipBuffer' (?o + 8) = readUInt16LE zipBuffer (?o + 8)"
    by (rule readUInt16LE_cong [OF len]) (simp add: same)
  have r26: "readUInt16LE zipBuffer' (?o + 26) = readUInt16LE zipBuffer (?o + 26)"
    by (rule readUInt16LE_cong [OF len]) (simp add: same)
  have r28: "readUInt16LE zipBuffer' (?o + 28) = readUInt16LE zipBuffer (?o + 28)"
    by (rule readUInt16LE_cong [OF len]) (simp add: same)
  have sl: "slice_buf zipBuffer' (?o + 30 + n + x) e = slice_buf zipBuffer (?o + 30 + n + x) e" for n x e
    by (rule slice_buf_cong [OF len]) (simp add: same)
  show ?thesis
    unfolding readFileData_def Let_def by (simp only: r0 r4 r6 r8 r26 r28 sl)
qed

section \<open>The file system: properties\<close>

text \<open>
  A sequence of calls that returns on a well-behaved file system leaves, under a path,
  the data of the last call that wrote its file, or what was there before; and every
  directory it made, or that was there before. The example file system is well behaved.
\<close>

lemma outcome_eta:
  "(case x of (Inl e, s') \<Rightarrow> (Inl e, s') | (Inr u, s') \<Rightarrow> (Inr (), s')) = (x :: (error + unit) \<times> 'fs)"
  by (cases x) (auto split: sum.splits)

lemma performCalls_one: "performCalls fsys [c] s = performCall fsys c s"
  by (cases "performCall fsys c s") (auto split: sum.splits)

lemma performCalls_append:
  "performCalls fsys (xs @ ys) s =
     (case performCalls fsys xs s of
        (Inl e, s') \<Rightarrow> (Inl e, s')
      | (Inr u, s') \<Rightarrow> performCalls fsys ys s')"
  by (induction xs arbitrary: s) (auto split: prod.splits sum.splits)

lemma mkdirSync_returns:
  "mkdirSync fsys p s = (Inr u, s') \<longleftrightarrow> fs_mkdirSync fsys p s = (None, s')"
  by (auto simp: mkdirSync_def split: prod.splits option.splits)

lemma writeFileSync_returns:
  "writeFileSync fsys p d s = (Inr u, s') \<longleftrightarrow> fs_writeFileSync fsys p d s = (None, s')"
  by (auto simp: writeFileSync_def split: prod.splits option.splits)

lemma wellBehaved_written:
  assumes "wellBehaved fsys" and "fs_writeFileSync fsys p d s = (None, s')"
  shows "fs_readFile fsys s' p = Some d"
proof -
  from assms have "fs_readFile fsys s' p
      = (if fs_samePath fsys p p then Some d else fs_readFile fsys s p)"
    unfolding wellBehaved_def by blast
  moreover from assms(1) have "fs_samePath fsys p p" unfolding wellBehaved_def by blast
  ultimately show ?thesis by simp
qed

lemma wellBehaved_made:
  assumes "wellBehaved fsys" and "fs_mkdirSync fsys p s = (None, s')"
  shows "fs_isDirectory fsys s' p" and "fs_readFile fsys s' q = fs_readFile fsys s q"
  using assms unfolding wellBehaved_def by blast+

lemma performCall_readFile:
  assumes "wellBehaved fsys" and "performCall fsys c s = (Inr u, s')"
  shows "fs_readFile fsys s' p =
           (case lastWrite fsys [c] p of Some d \<Rightarrow> Some d | None \<Rightarrow> fs_readFile fsys s p)"
  using assms unfolding wellBehaved_def performCall_def
  by (cases c) (auto simp: mkdirSync_returns writeFileSync_returns)

lemma performCall_isDirectory:
  assumes "wellBehaved fsys" and "performCall fsys c s = (Inr u, s')"
  shows "fs_isDirectory fsys s p \<or> c = MkdirSync p \<longrightarrow> fs_isDirectory fsys s' p"
  using assms unfolding wellBehaved_def performCall_def
  by (cases c) (auto simp: mkdirSync_returns writeFileSync_returns)

lemma performCalls_readFile:
  assumes "wellBehaved fsys"
  shows "performCalls fsys cs s = (Inr u, s') \<Longrightarrow>
         fs_readFile fsys s' p =
           (case lastWrite fsys cs p of Some d \<Rightarrow> Some d | None \<Rightarrow> fs_readFile fsys s p)"
proof (induction cs arbitrary: s)
  case Nil
  then show ?case by simp
next
  case (Cons c cs)
  obtain r s1 where step: "performCall fsys c s = (r, s1)" by (cases "performCall fsys c s")
  with Cons.prems obtain v where r: "r = Inr v" and rest: "performCalls fsys cs s1 = (Inr u, s')"
    by (cases r) auto
  from performCall_readFile [OF assms step [unfolded r], of p]
  have one: "fs_readFile fsys s1 p =
      (case c of
         WriteFileSync q d \<Rightarrow> if fs_samePath fsys p q then Some d else fs_readFile fsys s p
       | MkdirSync q \<Rightarrow> fs_readFile fsys s p)"
    by (cases c) auto
  from Cons.IH [OF rest] one show ?case
    by (cases c) (auto split: option.splits)
qed

lemma performCalls_isDirectory:
  assumes "wellBehaved fsys"
  shows "performCalls fsys cs s = (Inr u, s') \<Longrightarrow>
         fs_isDirectory fsys s p \<or> MkdirSync p \<in> set cs \<Longrightarrow> fs_isDirectory fsys s' p"
proof (induction cs arbitrary: s)
  case Nil
  then show ?case by simp
next
  case (Cons c cs)
  obtain r s1 where step: "performCall fsys c s = (r, s1)" by (cases "performCall fsys c s")
  with Cons.prems(1) obtain v where r: "r = Inr v" and rest: "performCalls fsys cs s1 = (Inr u, s')"
    by (cases r) auto
  from performCall_isDirectory [OF assms step [unfolded r], of p] Cons.prems(2)
  have "fs_isDirectory fsys s1 p \<or> MkdirSync p \<in> set cs" by auto
  with Cons.IH [OF rest] show ?case by blast
qed

lemma lastWrite_append:
  "lastWrite fsys (xs @ ys) p =
     (case lastWrite fsys ys p of Some d \<Rightarrow> Some d | None \<Rightarrow> lastWrite fsys xs p)"
  by (induction xs) (auto split: option.splits fs_call.splits)

lemma makeDirectories_apply:
  "makeDirectories ps d k = (if k \<in> set ps \<and> d k = None then Some Directory else d k)"
  by (induction ps arbitrary: d) auto

lemma not_file_cases: "\<not> isFileAt d q \<Longrightarrow> d q = None \<or> d q = Some Directory"
  unfolding isFileAt_def by (cases "d q") (auto split: node.splits)

lemma wellBehaved_plainFs: "wellBehaved plainFs"
proof -
  have mk: "isDirectoryAt s' p \<and> (\<forall>q. readFileAt s' q = readFileAt s q)
        \<and> (\<forall>q. isDirectoryAt s q \<longrightarrow> isDirectoryAt s' q)"
    if run: "plainMkdir p s = (None, s')" for p s s'
  proof -
    let ?ps = "pathPrefixes p"
    from run have nf: "\<not> list_ex (isFileAt s) (butlast ?ps)" and nl: "?ps = [] \<or> \<not> isFileAt s (last ?ps)"
      and s': "s' = makeDirectories ?ps s"
      by (auto simp: plainMkdir_def Let_def split: if_splits)
    have none: "\<not> isFileAt s q" if "q \<in> set ?ps" for q
    proof (cases "?ps = []")
      case True
      with that show ?thesis by simp
    next
      case False
      then have "?ps = butlast ?ps @ [last ?ps]" by simp
      with that have "q \<in> set (butlast ?ps) \<or> q = last ?ps"
        by (metis Un_iff empty_iff insert_iff list.set(1) list.set(2) set_append)
      with nf nl False show ?thesis by (auto simp: list_ex_iff)
    qed
    have a: "isDirectoryAt s' p"
    proof (cases "?ps = []")
      case True
      then show ?thesis by (simp add: isDirectoryAt_def)
    next
      case False
      then have "last ?ps \<in> set ?ps" by simp
      with none [of "last ?ps"] not_file_cases [of s "last ?ps"] show ?thesis
        by (auto simp: isDirectoryAt_def s' makeDirectories_apply)
    qed
    have b: "readFileAt s' q = readFileAt s q" for q
      by (simp add: readFileAt_def s' makeDirectories_apply)
    have c: "isDirectoryAt s q \<longrightarrow> isDirectoryAt s' q" for q
      by (auto simp: isDirectoryAt_def s' makeDirectories_apply)
    from a b c show ?thesis by blast
  qed
  have wr: "(\<forall>q. readFileAt s' q = (if q = p then Some d else readFileAt s q))
        \<and> (\<forall>q. isDirectoryAt s q \<longrightarrow> isDirectoryAt s' q)"
    if run: "plainWrite p d s = (None, s')" for p d s s'
  proof -
    from run have nd: "s p \<noteq> Some Directory" and s': "s' = s(p \<mapsto> RegularFile d)"
      by (auto simp: plainWrite_def Let_def split: if_splits)
    show ?thesis using nd by (auto simp: readFileAt_def isDirectoryAt_def s')
  qed
  show ?thesis
    unfolding wellBehaved_def using mk wr by (simp add: plainFs_def)
qed

section \<open>The entries: properties\<close>

text \<open>The equations that evaluate the program on the concrete inputs.\<close>

lemmas read_simps = readUInt32LE_def readUInt16LE_def slice_buf_def toString_def inRange_def
  replacementCharacter_def char_of_eq_iff

lemmas directory_simps = readDirectory_def findEocd.simps eocdSig_def readCentralHeader_def

lemmas path_simps = path_join_def path_normalize_def path_dirname_def endsWithSlash_def

lemmas fs_simps = mkdirSync_def writeFileSync_def plainFs_def plainMkdir_def plainWrite_def
  pathPrefixes_def isFileAt_def isDirectoryAt_def readFileAt_def emptyDisk_def

text \<open>
  C4 (amended). For a regular entry whose local header is read, the payload handed to
  decoding is the part of the view that starts right after the fixed fields, the name and
  the extra field of the local header and runs for \<open>compSize\<close> bytes of the directory
  record, or to the end of the view when that comes first: it has exactly \<open>compSize\<close>
  bytes when the view is long enough. The size fields of the local header play no part:
  changing them changes nothing.
\<close>

theorem fileData_from_directory_size:
  assumes "readFileData zipBuffer f = Inr fileData"
  shows "\<exists>start. payloadStart zipBuffer f = Inr start
           \<and> fileData = map (\<lambda>i. zipBuffer ! i) [start ..< min (start + compSize f) (length zipBuffer)]
           \<and> (start + compSize f \<le> length zipBuffer \<longrightarrow> length fileData = compSize f)
           \<and> (\<forall>zipBuffer'. sameOutsideLocalSizes zipBuffer' zipBuffer f
                 \<longrightarrow> readFileData zipBuffer' f = Inr fileData)"
proof -
  from readFileData_start [OF assms] obtain start
    where st: "payloadStart zipBuffer f = Inr start"
      and fd: "fileData = slice_buf zipBuffer start (start + compSize f)" by blast
  have "slice_buf zipBuffer start (start + compSize f)
      = map (\<lambda>i. zipBuffer ! i) [start ..< min (start + compSize f) (length zipBuffer)]"
    by (intro nth_equalityI) (auto simp: slice_buf_def)
  with fd have range: "fileData = map (\<lambda>i. zipBuffer ! i) [start ..< min (start + compSize f) (length zipBuffer)]"
    by simp
  have len: "start + compSize f \<le> length zipBuffer \<longrightarrow> length fileData = compSize f"
    using fd by (auto simp: slice_buf_def)
  have ign: "\<forall>zipBuffer'. sameOutsideLocalSizes zipBuffer' zipBuffer f
                 \<longrightarrow> readFileData zipBuffer' f = Inr fileData"
    using readFileData_ignores_local_sizes assms by simp
  from st range len ign show ?thesis by blast
qed

text \<open>
  C4 as stated fails on a view that ends before \<open>compSize\<close> bytes: the directory of
  this archive says 200, and the payload written to \<open>out/a\<close> is the 71 bytes that
  remain. The extraction is into an empty directory of the example file system; it
  leaves the directory \<open>out\<close> and the file \<open>out/a\<close>.
\<close>

theorem fileData_shorter_than_directory_size:
  "readDirectory truncatedArchive =
     Inr [\<lparr>filename = ''a'', method = 0, compSize = 200, unCompSize = 2, flags = 0,
           localHeaderOffset = 0\<rparr>]
   \<and> readFileData truncatedArchive
       \<lparr>filename = ''a'', method = 0, compSize = 200, unCompSize = 2, flags = 0,
        localHeaderOffset = 0\<rparr> = Inr (drop 31 truncatedArchive)
   \<and> length (drop 31 truncatedArchive) = 71
   \<and> parseZipCentralDirectory plainFs (\<lambda>d. None) truncatedArchive ''out'' emptyDisk =
       (Inr (), emptyDisk(''out'' \<mapsto> Directory,
                          ''out/a'' \<mapsto> RegularFile (drop 31 truncatedArchive)))"
proof -
  have rd: "readDirectory truncatedArchive =
     Inr [\<lparr>filename = ''a'', method = 0, compSize = 200, unCompSize = 2, flags = 0,
           localHeaderOffset = 0\<rparr>]"
    by (simp add: truncatedArchive_def directory_simps read_simps)
  have rf: "readFileData truncatedArchive
       \<lparr>filename = ''a'', method = 0, compSize = 200, unCompSize = 2, flags = 0,
        localHeaderOffset = 0\<rparr> = Inr (drop 31 truncatedArchive)"
    by (simp add: truncatedArchive_def readFileData_def read_simps)
  have ln: "length (drop 31 truncatedArchive) = 71"
    by (simp add: truncatedArchive_def)
  have pj: "path_join ''out'' ''a'' = ''out/a''" by (simp add: path_simps)
  have pd: "path_dirname ''out/a'' = ''out''" by (simp add: path_simps)
  have "parseZipCentralDirectory plainFs (\<lambda>d. None) truncatedArchive ''out'' emptyDisk =
       (Inr (), emptyDisk(''out'' \<mapsto> Directory,
                          ''out/a'' \<mapsto> RegularFile (drop 31 truncatedArchive)))"
    by (simp add: parseZipCentralDirectory_def rd extractFile_def rf pj pd endsWithSlash_def
        fs_simps)
  with rd rf ln show ?thesis by simp
qed

lemma sameOutsideLocalSizes_append:
  assumes "length pre = localHeaderOffset f + 18" and "length mid' = 8" and "length mid = 8"
  shows "sameOutsideLocalSizes (pre @ mid' @ post) (pre @ mid @ post) f"
  using assms unfolding sameOutsideLocalSizes_def by (auto simp: nth_append)

theorem fileData_from_directory_size_witness:
  "readFileData
     ([0x50, 0x4b, 0x03, 0x04, 0x14, 0, 0, 0, 0, 0, 0, 0, 0, 0, 0, 0, 0, 0]
      @ [0, 0, 0, 0, 0, 0, 0, 0] @ [1, 0, 0, 0, 0x61, 0x68, 0x69])
     \<lparr>filename = ''a'', method = 0, compSize = 2, unCompSize = 2, flags = 0, localHeaderOffset = 0\<rparr>
     = Inr [0x68, 0x69]
   \<and> length [0x68, 0x69 :: byte]
     = compSize \<lparr>filename = ''a'', method = 0, compSize = 2, unCompSize = 2, flags = 0,
                 localHeaderOffset = 0\<rparr>"
proof -
  let ?pre = "[0x50, 0x4b, 0x03, 0x04, 0x14, 0, 0, 0, 0, 0, 0, 0, 0, 0, 0, 0, 0, 0] :: buffer"
  let ?post = "[1, 0, 0, 0, 0x61, 0x68, 0x69] :: buffer"
  let ?b = "?pre @ [2, 0, 0, 0, 2, 0, 0, 0] @ ?post"
  let ?b' = "?pre @ [0, 0, 0, 0, 0, 0, 0, 0] @ ?post"
  let ?f = "\<lparr>filename = ''a'', method = 0, compSize = 2, unCompSize = 2, flags = 0,
             localHeaderOffset = 0\<rparr>"
  have rf: "readFileData ?b ?f = Inr [0x68, 0x69]"
    by (simp add: readFileData_def read_simps)
  have same: "sameOutsideLocalSizes ?b' ?b ?f"
    by (rule sameOutsideLocalSizes_append) simp_all
  have st: "payloadStart ?b ?f = Inr 31"
    by (simp add: payloadStart_def read_simps)
  from fileData_from_directory_size [OF rf] st same
  have "length [0x68, 0x69 :: byte] = compSize ?f" and "readFileData ?b' ?f = Inr [0x68, 0x69]"
    by auto
  then show ?thesis by simp
qed

lemma readCentralDirectory_numeral [simp]:
  "readCentralDirectory zipBuffer ptr (numeral k) =
     bindE (readCentralHeader zipBuffer ptr) (\<lambda>(f, ptr').
     bindE (readCentralDirectory zipBuffer ptr' (pred_numeral k)) (\<lambda>files.
       Inr (f # files)))"
  by (simp add: numeral_eq_Suc)

lemma extractFiles_append:
  "extractFiles fsys inflate zipBuffer outFolder (xs @ ys) s =
     (case extractFiles fsys inflate zipBuffer outFolder xs s of
        (Inl e, s') \<Rightarrow> (Inl e, s')
      | (Inr u, s') \<Rightarrow> extractFiles fsys inflate zipBuffer outFolder ys s')"
  by (induction xs arbitrary: s) (auto split: prod.splits sum.splits)

text \<open>
  C5 (amended). For a regular entry of method 8 whose local header is read, the parent
  directory of the destination is made first; when the file system refuses that, the
  extraction ends with its error and nothing is handed to zlib. Otherwise the payload
  goes to raw inflate as it is. When inflate fails, the extraction fails with
  DecompressionFailed and nothing is written. When it succeeds, its output is written
  to the file, whatever its length, and the extraction of the entry ends as that call
  does; if it returns, on a well-behaved file system, the file holds exactly that
  output. The uncompressed size of the directory record is not consulted: the outcome
  is the same for every value of it.
\<close>

theorem deflate_entry_output:
  assumes "\<not> endsWithSlash (filename f)" and "method f = 8"
    and "readFileData zipBuffer f = Inr fileData"
  shows "extractFile fsys inflate zipBuffer outFolder f s =
           (case fs_mkdirSync fsys (path_dirname (path_join outFolder (filename f))) s of
              (Some code, s1) \<Rightarrow> (Inl (FileSystemError code), s1)
            | (None, s1) \<Rightarrow>
                (case inflate fileData of
                   None \<Rightarrow> (Inl DecompressionFailed, s1)
                 | Some unzipped \<Rightarrow>
                     (case fs_writeFileSync fsys (path_join outFolder (filename f)) unzipped s1 of
                        (Some code, s2) \<Rightarrow> (Inl (FileSystemError code), s2)
                      | (None, s2) \<Rightarrow> (Inr (), s2))))
       \<and> (wellBehaved fsys \<and> extractFile fsys inflate zipBuffer outFolder f s = (Inr (), s')
            \<longrightarrow> (\<exists>unzipped. inflate fileData = Some unzipped
                  \<and> fs_readFile fsys s' (path_join outFolder (filename f)) = Some unzipped))
       \<and> extractFile fsys inflate zipBuffer outFolder (f\<lparr>unCompSize := n\<rparr>) s
         = extractFile fsys inflate zipBuffer outFolder f s"
proof (intro conjI impI)
  let ?p = "path_join outFolder (filename f)"
  show run: "extractFile fsys inflate zipBuffer outFolder f s =
           (case fs_mkdirSync fsys (path_dirname ?p) s of
              (Some code, s1) \<Rightarrow> (Inl (FileSystemError code), s1)
            | (None, s1) \<Rightarrow>
                (case inflate fileData of
                   None \<Rightarrow> (Inl DecompressionFailed, s1)
                 | Some unzipped \<Rightarrow>
                     (case fs_writeFileSync fsys ?p unzipped s1 of
                        (Some code, s2) \<Rightarrow> (Inl (FileSystemError code), s2)
                      | (None, s2) \<Rightarrow> (Inr (), s2))))"
    using assms
    by (simp add: extractFile_def inflateRawSync_def mkdirSync_def writeFileSync_def Let_def
        split: option.splits prod.splits)
  have "readFileData zipBuffer (f\<lparr>unCompSize := n\<rparr>) = readFileData zipBuffer f"
    by (simp add: readFileData_def Let_def cong: if_cong)
  then show "extractFile fsys inflate zipBuffer outFolder (f\<lparr>unCompSize := n\<rparr>) s
         = extractFile fsys inflate zipBuffer outFolder f s"
    using assms by (simp add: extractFile_def Let_def split: prod.splits sum.splits)
  assume "wellBehaved fsys \<and> extractFile fsys inflate zipBuffer outFolder f s = (Inr (), s')"
  then have wb: "wellBehaved fsys"
    and ok: "extractFile fsys inflate zipBuffer outFolder f s = (Inr (), s')" by simp_all
  from ok [unfolded run] obtain s1 unzipped
    where inf: "inflate fileData = Some unzipped"
      and wr: "fs_writeFileSync fsys ?p unzipped s1 = (None, s')"
    by (auto split: prod.splits option.splits)
  from wellBehaved_written [OF wb wr] inf
  show "\<exists>unzipped. inflate fileData = Some unzipped
                  \<and> fs_readFile fsys s' ?p = Some unzipped"
    by simp
qed

theorem deflate_entry_output_witness:
  "extractFile plainFs inflateStored
     ([0x50, 0x4b, 0x03, 0x04, 0x14, 0x00, 0x00, 0x00, 0x08, 0x00, 0x00, 0x00, 0x00, 0x00, 0x00, 0x00,
     0x00, 0x00, 0x07, 0x00, 0x00, 0x00, 0x02, 0x00, 0x00, 0x00, 0x01, 0x00, 0x00, 0x00, 0x61, 0x01,
     0x02, 0x00, 0xfd, 0xff, 0x68, 0x69]) ''out''
     (\<lparr>filename = ''a'', method = 8, compSize = 7, unCompSize = 2, flags = 0,
        localHeaderOffset = 0\<rparr>) emptyDisk
     = (Inr (), emptyDisk(''out'' \<mapsto> Directory, ''out/a'' \<mapsto> RegularFile [0x68, 0x69]))
   \<and> fs_readFile plainFs
        (emptyDisk(''out'' \<mapsto> Directory, ''out/a'' \<mapsto> RegularFile [0x68, 0x69])) ''out/a''
       = Some [0x68, 0x69]
   \<and> extractFile plainFs inflateStored
     ([0x50, 0x4b, 0x03, 0x04, 0x14, 0x00, 0x00, 0x00, 0x08, 0x00, 0x00, 0x00, 0x00, 0x00, 0x00, 0x00,
     0x00, 0x00, 0x07, 0x00, 0x00, 0x00, 0x02, 0x00, 0x00, 0x00, 0x01, 0x00, 0x00, 0x00, 0x61, 0x01,
     0x02, 0x00, 0x00, 0x00, 0x68, 0x69]) ''out''
     (\<lparr>filename = ''a'', method = 8, compSize = 7, unCompSize = 2, flags = 0,
        localHeaderOffset = 0\<rparr>) emptyDisk
     = (Inl DecompressionFailed, emptyDisk(''out'' \<mapsto> Directory))"
proof -
  let ?f = "(\<lparr>filename = ''a'', method = 8, compSize = 7, unCompSize = 2, flags = 0,
        localHeaderOffset = 0\<rparr>)"
  let ?b = "([0x50, 0x4b, 0x03, 0x04, 0x14, 0x00, 0x00, 0x00, 0x08, 0x00, 0x00, 0x00, 0x00, 0x00, 0x00, 0x00,
     0x00, 0x00, 0x07, 0x00, 0x00, 0x00, 0x02, 0x00, 0x00, 0x00, 0x01, 0x00, 0x00, 0x00, 0x61, 0x01,
     0x02, 0x00, 0xfd, 0xff, 0x68, 0x69]) :: buffer"
  let ?c = "([0x50, 0x4b, 0x03, 0x04, 0x14, 0x00, 0x00, 0x00, 0x08, 0x00, 0x00, 0x00, 0x00, 0x00, 0x00, 0x00,
     0x00, 0x00, 0x07, 0x00, 0x00, 0x00, 0x02, 0x00, 0x00, 0x00, 0x01, 0x00, 0x00, 0x00, 0x61, 0x01,
     0x02, 0x00, 0x00, 0x00, 0x68, 0x69]) :: buffer"
  let ?s = "emptyDisk(''out'' \<mapsto> Directory, ''out/a'' \<mapsto> RegularFile [0x68, 0x69])"
  have name: "\<not> endsWithSlash (filename ?f)" and m: "method ?f = 8"
    by (simp_all add: endsWithSlash_def)
  have rb: "readFileData ?b ?f = Inr [0x01, 0x02, 0x00, 0xfd, 0xff, 0x68, 0x69]"
    by (simp add: readFileData_def read_simps)
  have rc: "readFileData ?c ?f = Inr [0x01, 0x02, 0x00, 0x00, 0x00, 0x68, 0x69]"
    by (simp add: readFileData_def read_simps)
  have ib: "inflateStored [0x01, 0x02, 0x00, 0xfd, 0xff, 0x68, 0x69] = Some [0x68, 0x69]"
    by (simp add: inflateStored_def)
  have ic: "inflateStored [0x01, 0x02, 0x00, 0x00, 0x00, 0x68, 0x69] = None"
    by (simp add: inflateStored_def)
  have pj: "path_join ''out'' ''a'' = ''out/a''" by (simp add: path_simps)
  have pd: "path_dirname ''out/a'' = ''out''" by (simp add: path_simps)
  have md: "fs_mkdirSync plainFs ''out'' emptyDisk = (None, emptyDisk(''out'' \<mapsto> Directory))"
    by (simp add: fs_simps)
  have wr: "fs_writeFileSync plainFs ''out/a'' [0x68, 0x69] (emptyDisk(''out'' \<mapsto> Directory))
      = (None, ?s)"
    by (simp add: fs_simps)
  note good = deflate_entry_output [OF name m rb, of plainFs inflateStored "''out''" emptyDisk ?s]
  note bad = deflate_entry_output [OF name m rc, of plainFs inflateStored "''out''" emptyDisk]
  have one: "extractFile plainFs inflateStored ?b ''out'' ?f emptyDisk = (Inr (), ?s)"
    using good by (simp add: ib pj pd md wr)
  with good wellBehaved_plainFs
  have two: "fs_readFile plainFs ?s ''out/a'' = Some [0x68, 0x69]"
    by (simp add: ib pj)
  have three: "extractFile plainFs inflateStored ?c ''out'' ?f emptyDisk
      = (Inl DecompressionFailed, emptyDisk(''out'' \<mapsto> Directory))"
    using bad by (simp add: ic pj pd md)
  from one two three show ?thesis by simp
qed

text \<open>
  C5 as stated fails where the directory misstates the size: it says 5 here, and the file
  written has the 2 bytes that inflate returns. It fails too where the parent directory
  cannot be made: after the stored entry \<open>a\<close>, the entry \<open>a/b\<close> of method 8 ends
  the extraction with \<open>EEXIST\<close>, and its payload, which zlib would reject, is never
  handed to zlib. Nor is anything decompressed for a directory marker of method 8,
  whose directory is made, or for an entry of method 8 whose local header cannot be
  read.
\<close>

theorem deflate_output_not_uncompressed_size:
  "readDirectory wrongSizeArchive =
     Inr [\<lparr>filename = ''a'', method = 8, compSize = 7, unCompSize = 5, flags = 0,
        localHeaderOffset = 0\<rparr>]
   \<and> parseZipCentralDirectory plainFs inflateStored wrongSizeArchive ''out'' emptyDisk =
       (Inr (), emptyDisk(''out'' \<mapsto> Directory, ''out/a'' \<mapsto> RegularFile [0x68, 0x69]))
   \<and> readDirectory parentIsFileDeflatedArchive =
     Inr [\<lparr>filename = ''a'', method = 0, compSize = 2, unCompSize = 2, flags = 0,
           localHeaderOffset = 0\<rparr>,
          \<lparr>filename = ''a/b'', method = 8, compSize = 7, unCompSize = 2, flags = 0,
           localHeaderOffset = 33\<rparr>]
   \<and> parseZipCentralDirectory plainFs inflateStored parentIsFileDeflatedArchive ''out'' emptyDisk =
       (Inl (FileSystemError ''EEXIST''),
        emptyDisk(''out'' \<mapsto> Directory, ''out/a'' \<mapsto> RegularFile [0x68, 0x69]))
   \<and> extractFile plainFs inflateStored [] ''out''
       \<lparr>filename = ''d/'', method = 8, compSize = 0, unCompSize = 0, flags = 0,
        localHeaderOffset = 0\<rparr> emptyDisk =
       (Inr (), emptyDisk(''out'' \<mapsto> Directory, ''out/d'' \<mapsto> Directory))
   \<and> extractFile plainFs inflateStored [] ''out''
       \<lparr>filename = ''a'', method = 8, compSize = 7, unCompSize = 2, flags = 0,
        localHeaderOffset = 0\<rparr> emptyDisk =
       (Inl RangeError, emptyDisk)"
proof -
  have rd: "readDirectory wrongSizeArchive =
     Inr [\<lparr>filename = ''a'', method = 8, compSize = 7, unCompSize = 5, flags = 0,
        localHeaderOffset = 0\<rparr>]"
    by (simp add: wrongSizeArchive_def directory_simps read_simps)
  have rf: "readFileData wrongSizeArchive
       \<lparr>filename = ''a'', method = 8, compSize = 7, unCompSize = 5, flags = 0,
        localHeaderOffset = 0\<rparr> = Inr [0x01, 0x02, 0x00, 0xfd, 0xff, 0x68, 0x69]"
    by (simp add: wrongSizeArchive_def readFileData_def read_simps)
  have ib: "inflateStored [0x01, 0x02, 0x00, 0xfd, 0xff, 0x68, 0x69] = Some [0x68, 0x69]"
    by (simp add: inflateStored_def)
  have pj: "path_join ''out'' ''a'' = ''out/a''" by (simp add: path_simps)
  have pd: "path_dirname ''out/a'' = ''out''" by (simp add: path_simps)
  have one: "parseZipCentralDirectory plainFs inflateStored wrongSizeArchive ''out'' emptyDisk =
       (Inr (), emptyDisk(''out'' \<mapsto> Directory, ''out/a'' \<mapsto> RegularFile [0x68, 0x69]))"
    by (simp add: parseZipCentralDirectory_def rd extractFile_def rf ib pj pd endsWithSlash_def
        inflateRawSync_def fs_simps)
  have rd2: "readDirectory parentIsFileDeflatedArchive =
     Inr [\<lparr>filename = ''a'', method = 0, compSize = 2, unCompSize = 2, flags = 0,
           localHeaderOffset = 0\<rparr>,
          \<lparr>filename = ''a/b'', method = 8, compSize = 7, unCompSize = 2, flags = 0,
           localHeaderOffset = 33\<rparr>]"
    by (simp add: parentIsFileDeflatedArchive_def directory_simps read_simps)
  have ra: "readFileData parentIsFileDeflatedArchive
       \<lparr>filename = ''a'', method = 0, compSize = 2, unCompSize = 2, flags = 0,
        localHeaderOffset = 0\<rparr> = Inr [0x68, 0x69]"
    by (simp add: parentIsFileDeflatedArchive_def readFileData_def read_simps)
  have rb: "readFileData parentIsFileDeflatedArchive
       \<lparr>filename = ''a/b'', method = 8, compSize = 7, unCompSize = 2, flags = 0,
        localHeaderOffset = 33\<rparr> = Inr [0x01, 0x02, 0x00, 0x00, 0x00, 0x68, 0x69]"
    by (simp add: parentIsFileDeflatedArchive_def readFileData_def read_simps)
  have pjb: "path_join ''out'' ''a/b'' = ''out/a/b''" by (simp add: path_simps)
  have pdb: "path_dirname ''out/a/b'' = ''out/a''" by (simp add: path_simps)
  have two: "parseZipCentralDirectory plainFs inflateStored parentIsFileDeflatedArchive ''out''
        emptyDisk =
       (Inl (FileSystemError ''EEXIST''),
        emptyDisk(''out'' \<mapsto> Directory, ''out/a'' \<mapsto> RegularFile [0x68, 0x69]))"
    by (simp add: parseZipCentralDirectory_def rd2 extractFile_def ra rb pj pd pjb pdb
        endsWithSlash_def fs_simps)
  have pjd: "path_join ''out'' ''d/'' = ''out/d/''" by (simp add: path_simps)
  have three: "extractFile plainFs inflateStored [] ''out''
       \<lparr>filename = ''d/'', method = 8, compSize = 0, unCompSize = 0, flags = 0,
        localHeaderOffset = 0\<rparr> emptyDisk =
       (Inr (), emptyDisk(''out'' \<mapsto> Directory, ''out/d'' \<mapsto> Directory))"
    by (simp add: extractFile_def pjd endsWithSlash_def fs_simps)
  have four: "extractFile plainFs inflateStored [] ''out''
       \<lparr>filename = ''a'', method = 8, compSize = 7, unCompSize = 2, flags = 0,
        localHeaderOffset = 0\<rparr> emptyDisk =
       (Inl RangeError, emptyDisk)"
    by (simp add: extractFile_def endsWithSlash_def readFileData_def read_simps)
  from rd one rd2 two three four show ?thesis by simp
qed

text \<open>
  C7 (amended). When the destination root is made and the entries before it extract, a
  regular entry whose local header is read and whose method is neither 0 nor 8 ends the
  extraction: with the error of the file system when the creation of its parent
  directory is refused, and with UnsupportedCompressionMethod of its method and name
  otherwise. The state left is the one that the creation of the parent directory
  leaves: nothing is written for the entry or for any entry after it, and on a
  well-behaved file system every path holds the file that the earlier entries left.
\<close>

theorem unsupported_method_aborts:
  assumes "readDirectory zipBuffer = Inr (pre @ f # post)"
    and "mkdirSync fsys outFolder s = (Inr (), s0)"
    and "extractFiles fsys inflate zipBuffer outFolder pre s0 = (Inr (), s1)"
    and "\<not> endsWithSlash (filename f)"
    and "readFileData zipBuffer f = Inr fileData"
    and "method f \<noteq> 0" and "method f \<noteq> 8"
  shows "parseZipCentralDirectory fsys inflate zipBuffer outFolder s =
           (case fs_mkdirSync fsys (path_dirname (path_join outFolder (filename f))) s1 of
              (Some code, s2) \<Rightarrow> (Inl (FileSystemError code), s2)
            | (None, s2) \<Rightarrow>
                (Inl (UnsupportedCompressionMethod (method f) (filename f)), s2))
       \<and> (wellBehaved fsys
            \<and> parseZipCentralDirectory fsys inflate zipBuffer outFolder s =
                (Inl (UnsupportedCompressionMethod (method f) (filename f)), s2)
            \<longrightarrow> fs_readFile fsys s2 q = fs_readFile fsys s1 q)"
proof (intro conjI impI)
  let ?d = "path_dirname (path_join outFolder (filename f))"
  have "extractFile fsys inflate zipBuffer outFolder f s1 =
          (case fs_mkdirSync fsys ?d s1 of
              (Some code, s2) \<Rightarrow> (Inl (FileSystemError code), s2)
            | (None, s2) \<Rightarrow>
                (Inl (UnsupportedCompressionMethod (method f) (filename f)), s2))"
    using assms(4-7) by (simp add: extractFile_def mkdirSync_def split: prod.splits option.splits)
  then have "extractFiles fsys inflate zipBuffer outFolder (pre @ f # post) s0 =
          (case fs_mkdirSync fsys ?d s1 of
              (Some code, s2) \<Rightarrow> (Inl (FileSystemError code), s2)
            | (None, s2) \<Rightarrow>
                (Inl (UnsupportedCompressionMethod (method f) (filename f)), s2))"
    using assms(3) by (simp add: extractFiles_append split: prod.splits option.splits)
  with assms(1,2)
  show run: "parseZipCentralDirectory fsys inflate zipBuffer outFolder s =
          (case fs_mkdirSync fsys ?d s1 of
              (Some code, s2) \<Rightarrow> (Inl (FileSystemError code), s2)
            | (None, s2) \<Rightarrow>
                (Inl (UnsupportedCompressionMethod (method f) (filename f)), s2))"
    by (simp add: parseZipCentralDirectory_def)
  assume "wellBehaved fsys
            \<and> parseZipCentralDirectory fsys inflate zipBuffer outFolder s =
                (Inl (UnsupportedCompressionMethod (method f) (filename f)), s2)"
  then have wb: "wellBehaved fsys"
    and stop: "parseZipCentralDirectory fsys inflate zipBuffer outFolder s =
                (Inl (UnsupportedCompressionMethod (method f) (filename f)), s2)" by simp_all
  from stop [unfolded run] have "fs_mkdirSync fsys ?d s1 = (None, s2)"
    by (auto split: prod.splits option.splits)
  with wb show "fs_readFile fsys s2 q = fs_readFile fsys s1 q"
    by (rule wellBehaved_made)
qed

theorem unsupported_method_aborts_witness:
  "parseZipCentralDirectory plainFs (\<lambda>d. None) threeEntryArchive ''out'' emptyDisk =
     (Inl (UnsupportedCompressionMethod 99 ''b''),
      emptyDisk(''out'' \<mapsto> Directory, ''out/a'' \<mapsto> RegularFile [0x68, 0x69]))
   \<and> fs_readFile plainFs
        (emptyDisk(''out'' \<mapsto> Directory, ''out/a'' \<mapsto> RegularFile [0x68, 0x69])) ''out/c''
       = None"
proof -
  let ?a = "\<lparr>filename = ''a'', method = 0, compSize = 2, unCompSize = 2, flags = 0,
        localHeaderOffset = 0\<rparr>"
  let ?b = "\<lparr>filename = ''b'', method = 99, compSize = 2, unCompSize = 2, flags = 0,
        localHeaderOffset = 33\<rparr>"
  let ?c = "\<lparr>filename = ''c'', method = 0, compSize = 2, unCompSize = 2, flags = 0,
        localHeaderOffset = 66\<rparr>"
  let ?s1 = "emptyDisk(''out'' \<mapsto> Directory, ''out/a'' \<mapsto> RegularFile [0x68, 0x69])"
  have rd: "readDirectory threeEntryArchive = Inr ([?a] @ ?b # [?c])"
    by (simp add: threeEntryArchive_def directory_simps read_simps)
  have ra: "readFileData threeEntryArchive ?a = Inr [0x68, 0x69]"
    by (simp add: threeEntryArchive_def readFileData_def read_simps)
  have rb: "readFileData threeEntryArchive ?b = Inr [0x68, 0x69]"
    by (simp add: threeEntryArchive_def readFileData_def read_simps)
  have pa: "path_join ''out'' ''a'' = ''out/a''" by (simp add: path_simps)
  have pb: "path_join ''out'' ''b'' = ''out/b''" by (simp add: path_simps)
  have da: "path_dirname ''out/a'' = ''out''" by (simp add: path_simps)
  have db: "path_dirname ''out/b'' = ''out''" by (simp add: path_simps)
  have root: "mkdirSync plainFs ''out'' emptyDisk = (Inr (), emptyDisk(''out'' \<mapsto> Directory))"
    by (simp add: fs_simps)
  have pre: "extractFiles plainFs (\<lambda>d. None) threeEntryArchive ''out'' [?a]
               (emptyDisk(''out'' \<mapsto> Directory)) = (Inr (), ?s1)"
    by (simp add: extractFile_def ra pa da endsWithSlash_def fs_simps)
  have nb: "\<not> endsWithSlash (filename ?b)" by (simp add: endsWithSlash_def)
  have again: "fs_mkdirSync plainFs ''out'' ?s1 = (None, ?s1)"
    by (simp add: fs_simps)
  note main = unsupported_method_aborts [OF rd root pre nb rb, of ?s1 "''out/c''"]
  have one: "parseZipCentralDirectory plainFs (\<lambda>d. None) threeEntryArchive ''out'' emptyDisk =
     (Inl (UnsupportedCompressionMethod 99 ''b''), ?s1)"
    using main by (simp add: pb db again)
  have two: "fs_readFile plainFs ?s1 ''out/c'' = None"
    using main wellBehaved_plainFs one by (simp add: fs_simps)
  from one two show ?thesis by simp
qed

text \<open>
  C7 as stated fails for a directory marker: its method is never looked at, and this
  archive, whose only entry \<open>d/\<close> has method 99, extracts with success. It fails too
  where the parent directory cannot be made: after the stored entry \<open>a\<close>, the entry
  \<open>a/b\<close> of method 99 ends the extraction with \<open>EEXIST\<close>, before its method is
  looked at; and where the local header of the entry does not start with the signature,
  which is checked before the method too.
\<close>

theorem directory_marker_method_not_checked:
  "readDirectory directoryMethod99Archive =
     Inr [\<lparr>filename = ''d/'', method = 99, compSize = 0, unCompSize = 0, flags = 0,
        localHeaderOffset = 0\<rparr>]
   \<and> parseZipCentralDirectory plainFs (\<lambda>d. None) directoryMethod99Archive ''out'' emptyDisk =
       (Inr (), emptyDisk(''out'' \<mapsto> Directory, ''out/d'' \<mapsto> Directory))
   \<and> readDirectory parentIsFileArchive =
     Inr [\<lparr>filename = ''a'', method = 0, compSize = 2, unCompSize = 2, flags = 0,
           localHeaderOffset = 0\<rparr>,
          \<lparr>filename = ''a/b'', method = 99, compSize = 2, unCompSize = 2, flags = 0,
           localHeaderOffset = 33\<rparr>]
   \<and> parseZipCentralDirectory plainFs (\<lambda>d. None) parentIsFileArchive ''out'' emptyDisk =
       (Inl (FileSystemError ''EEXIST''),
        emptyDisk(''out'' \<mapsto> Directory, ''out/a'' \<mapsto> RegularFile [0x68, 0x69]))
   \<and> readDirectory wrongLocalSignatureArchive =
     Inr [\<lparr>filename = ''b'', method = 99, compSize = 2, unCompSize = 2, flags = 0,
           localHeaderOffset = 0\<rparr>]
   \<and> parseZipCentralDirectory plainFs (\<lambda>d. None) wrongLocalSignatureArchive ''out'' emptyDisk =
       (Inl (LocalHeaderSignatureMismatch 0 ''b''), emptyDisk(''out'' \<mapsto> Directory))"
proof -
  have rd: "readDirectory directoryMethod99Archive =
     Inr [\<lparr>filename = ''d/'', method = 99, compSize = 0, unCompSize = 0, flags = 0,
        localHeaderOffset = 0\<rparr>]"
    by (simp add: directoryMethod99Archive_def directory_simps read_simps)
  have pj: "path_join ''out'' ''d/'' = ''out/d/''" by (simp add: path_simps)
  have one: "parseZipCentralDirectory plainFs (\<lambda>d. None) directoryMethod99Archive ''out''
        emptyDisk =
       (Inr (), emptyDisk(''out'' \<mapsto> Directory, ''out/d'' \<mapsto> Directory))"
    by (simp add: parseZipCentralDirectory_def rd extractFile_def pj endsWithSlash_def fs_simps)
  have rd2: "readDirectory parentIsFileArchive =
     Inr [\<lparr>filename = ''a'', method = 0, compSize = 2, unCompSize = 2, flags = 0,
           localHeaderOffset = 0\<rparr>,
          \<lparr>filename = ''a/b'', method = 99, compSize = 2, unCompSize = 2, flags = 0,
           localHeaderOffset = 33\<rparr>]"
    by (simp add: parentIsFileArchive_def directory_simps read_simps)
  have ra: "readFileData parentIsFileArchive
       \<lparr>filename = ''a'', method = 0, compSize = 2, unCompSize = 2, flags = 0,
        localHeaderOffset = 0\<rparr> = Inr [0x68, 0x69]"
    by (simp add: parentIsFileArchive_def readFileData_def read_simps)
  have rb: "readFileData parentIsFileArchive
       \<lparr>filename = ''a/b'', method = 99, compSize = 2, unCompSize = 2, flags = 0,
        localHeaderOffset = 33\<rparr> = Inr [0x68, 0x69]"
    by (simp add: parentIsFileArchive_def readFileData_def read_simps)
  have pa: "path_join ''out'' ''a'' = ''out/a''" by (simp add: path_simps)
  have da: "path_dirname ''out/a'' = ''out''" by (simp add: path_simps)
  have pb: "path_join ''out'' ''a/b'' = ''out/a/b''" by (simp add: path_simps)
  have db: "path_dirname ''out/a/b'' = ''out/a''" by (simp add: path_simps)
  have two: "parseZipCentralDirectory plainFs (\<lambda>d. None) parentIsFileArchive ''out'' emptyDisk =
       (Inl (FileSystemError ''EEXIST''),
        emptyDisk(''out'' \<mapsto> Directory, ''out/a'' \<mapsto> RegularFile [0x68, 0x69]))"
    by (simp add: parseZipCentralDirectory_def rd2 extractFile_def ra rb pa da pb db
        endsWithSlash_def fs_simps)
  have rd3: "readDirectory wrongLocalSignatureArchive =
     Inr [\<lparr>filename = ''b'', method = 99, compSize = 2, unCompSize = 2, flags = 0,
           localHeaderOffset = 0\<rparr>]"
    by (simp add: wrongLocalSignatureArchive_def directory_simps read_simps)
  have rw: "readFileData wrongLocalSignatureArchive
       \<lparr>filename = ''b'', method = 99, compSize = 2, unCompSize = 2, flags = 0,
        localHeaderOffset = 0\<rparr> = Inl (LocalHeaderSignatureMismatch 0 ''b'')"
    by (simp add: wrongLocalSignatureArchive_def readFileData_def read_simps)
  have three: "parseZipCentralDirectory plainFs (\<lambda>d. None) wrongLocalSignatureArchive ''out''
        emptyDisk =
       (Inl (LocalHeaderSignatureMismatch 0 ''b''), emptyDisk(''out'' \<mapsto> Directory))"
    by (simp add: parseZipCentralDirectory_def rd3 extractFile_def rw endsWithSlash_def fs_simps)
  from rd one rd2 two rd3 three show ?thesis by simp
qed

lemma bindE_InrE:
  assumes "bindE m f = Inr y"
  obtains x where "m = Inr x" "f x = Inr y"
  using assms by (cases m) auto

lemma readCentralHeader_filename:
  assumes "readCentralHeader zipBuffer ptr = Inr (g, ptr')"
  shows "\<exists>fLen. readUInt16LE zipBuffer (ptr + 28) = Inr fLen
           \<and> filename g = toString zipBuffer (ptr + 46) (ptr + 46 + fLen)"
  using assms unfolding readCentralHeader_def
  by (fastforce elim!: bindE_InrE split: if_splits)

text \<open>
  C9 (amended). The paths that an entry hands to the file system are the join of the
  destination root and the name of the entry and, for a regular entry, the parent of
  that join: a directory marker makes the join; a regular entry whose local header is
  read makes the parent and then, if that call returns, writes the join (methods 0 and
  8, the latter when inflate succeeds) or fails. The name is the UTF-8 decoding of the
  name bytes of the directory record, and nothing else is done to it. No check keeps the
  join inside the root: wherever the join lies, on a well-behaved file system, when the
  extraction of the entry returns, the directory of a marker exists at the join and the
  file of a stored entry holds its payload there. In the examples the root is
  \<open>ext\<close>: the file \<open>../evil.txt\<close> is written to \<open>evil.txt\<close> and the marker
  \<open>../d/\<close> makes \<open>d\<close>, outside the root; so lie the joins of \<open>../../x\<close> and
  \<open>x/../../n\<close>, and that of \<open>../x\<close> with the root \<open>a/b\<close>. The name of one
  byte \<open>ff\<close> is decoded to U+FFFD.
\<close>

theorem destination_path_unsanitized:
  "(endsWithSlash (filename f) \<longrightarrow>
      extractFile fsys inflate zipBuffer outFolder f s
        = mkdirSync fsys (path_join outFolder (filename f)) s)
   \<and> (\<not> endsWithSlash (filename f) \<and> readFileData zipBuffer f = Inr fileData \<longrightarrow>
      extractFile fsys inflate zipBuffer outFolder f s =
        (case mkdirSync fsys (path_dirname (path_join outFolder (filename f))) s of
           (Inl e, s1) \<Rightarrow> (Inl e, s1)
         | (Inr u, s1) \<Rightarrow>
             if method f = 0
             then writeFileSync fsys (path_join outFolder (filename f)) fileData s1
             else if method f = 8 then
               (case inflate fileData of
                  None \<Rightarrow> (Inl DecompressionFailed, s1)
                | Some unzipped \<Rightarrow>
                    writeFileSync fsys (path_join outFolder (filename f)) unzipped s1)
             else (Inl (UnsupportedCompressionMethod (method f) (filename f)), s1)))
   \<and> (wellBehaved fsys \<and> extractFile fsys inflate zipBuffer outFolder f s = (Inr (), s') \<longrightarrow>
        (endsWithSlash (filename f) \<longrightarrow>
           fs_isDirectory fsys s' (path_join outFolder (filename f)))
      \<and> (\<not> endsWithSlash (filename f) \<and> readFileData zipBuffer f = Inr fileData
           \<and> method f = 0 \<longrightarrow>
           fs_readFile fsys s' (path_join outFolder (filename f)) = Some fileData))
   \<and> (readCentralHeader zipBuffer ptr = Inr (g, ptr') \<longrightarrow>
        (\<exists>fLen. readUInt16LE zipBuffer (ptr + 28) = Inr fLen
           \<and> filename g = toString zipBuffer (ptr + 46) (ptr + 46 + fLen)))"
proof (intro conjI impI)
  let ?p = "path_join outFolder (filename f)"
  show "\<exists>fLen. readUInt16LE zipBuffer (ptr + 28) = Inr fLen
           \<and> filename g = toString zipBuffer (ptr + 46) (ptr + 46 + fLen)"
    if "readCentralHeader zipBuffer ptr = Inr (g, ptr')"
    using that by (rule readCentralHeader_filename)
  show "extractFile fsys inflate zipBuffer outFolder f s = mkdirSync fsys ?p s"
    if "endsWithSlash (filename f)"
    using that by (simp add: extractFile_def)
  show "extractFile fsys inflate zipBuffer outFolder f s =
        (case mkdirSync fsys (path_dirname ?p) s of
           (Inl e, s1) \<Rightarrow> (Inl e, s1)
         | (Inr u, s1) \<Rightarrow>
             if method f = 0 then writeFileSync fsys ?p fileData s1
             else if method f = 8 then
               (case inflate fileData of
                  None \<Rightarrow> (Inl DecompressionFailed, s1)
                | Some unzipped \<Rightarrow> writeFileSync fsys ?p unzipped s1)
             else (Inl (UnsupportedCompressionMethod (method f) (filename f)), s1))"
    if "\<not> endsWithSlash (filename f) \<and> readFileData zipBuffer f = Inr fileData"
    using that
    by (simp add: extractFile_def inflateRawSync_def Let_def
        split: prod.splits sum.splits option.splits)
  assume both: "wellBehaved fsys \<and> extractFile fsys inflate zipBuffer outFolder f s = (Inr (), s')"
  then have wb: "wellBehaved fsys"
    and ok: "extractFile fsys inflate zipBuffer outFolder f s = (Inr (), s')" by simp_all
  show "fs_isDirectory fsys s' ?p" if "endsWithSlash (filename f)"
  proof -
    from that ok have "mkdirSync fsys ?p s = (Inr (), s')" by (simp add: extractFile_def)
    then have "fs_mkdirSync fsys ?p s = (None, s')" by (simp add: mkdirSync_returns)
    with wb show ?thesis by (rule wellBehaved_made)
  qed
  show "fs_readFile fsys s' ?p = Some fileData"
    if "\<not> endsWithSlash (filename f) \<and> readFileData zipBuffer f = Inr fileData \<and> method f = 0"
  proof -
    from that ok obtain s1 where "writeFileSync fsys ?p fileData s1 = (Inr (), s')"
      by (auto simp: extractFile_def Let_def split: prod.splits sum.splits)
    then have "fs_writeFileSync fsys ?p fileData s1 = (None, s')"
      by (simp add: writeFileSync_returns)
    with wb show ?thesis by (rule wellBehaved_written)
  qed
qed

theorem destination_path_unsanitized_witness:
  "extractFile plainFs (\<lambda>d. None)
     ([0x50, 0x4b, 0x03, 0x04, 0x14, 0x00, 0x00, 0x00, 0x00, 0x00, 0x00, 0x00, 0x00, 0x00, 0x00, 0x00,
     0x00, 0x00, 0x02, 0x00, 0x00, 0x00, 0x02, 0x00, 0x00, 0x00, 0x0b, 0x00, 0x00, 0x00, 0x2e, 0x2e,
     0x2f, 0x65, 0x76, 0x69, 0x6c, 0x2e, 0x74, 0x78, 0x74, 0x68, 0x69]) ''ext''
     (\<lparr>filename = ''../evil.txt'', method = 0, compSize = 2, unCompSize = 2, flags = 0,
        localHeaderOffset = 0\<rparr>) emptyDisk
     = (Inr (), emptyDisk(''evil.txt'' \<mapsto> RegularFile [0x68, 0x69]))
   \<and> fs_readFile plainFs (emptyDisk(''evil.txt'' \<mapsto> RegularFile [0x68, 0x69])) ''evil.txt''
       = Some [0x68, 0x69]
   \<and> \<not> liesUnder ''ext'' ''evil.txt''
   \<and> extractFile plainFs (\<lambda>d. None) [] ''ext''
     (\<lparr>filename = ''../d/'', method = 0, compSize = 0, unCompSize = 0, flags = 0,
        localHeaderOffset = 0\<rparr>) emptyDisk
     = (Inr (), emptyDisk(''d'' \<mapsto> Directory))
   \<and> fs_isDirectory plainFs (emptyDisk(''d'' \<mapsto> Directory)) ''d/''
   \<and> \<not> liesUnder ''ext'' ''d/''
   \<and> path_join ''ext'' ''../../x'' = ''../x'' \<and> \<not> liesUnder ''ext'' ''../x''
   \<and> path_join ''ext'' ''x/../../n'' = ''n'' \<and> \<not> liesUnder ''ext'' ''n''
   \<and> path_join ''a/b'' ''../x'' = ''a/x'' \<and> \<not> liesUnder ''a/b'' ''a/x''
   \<and> toString invalidNameArchive 79 80 = [CHR 0xEF, CHR 0xBF, CHR 0xBD]"
proof -
  let ?b = "([0x50, 0x4b, 0x03, 0x04, 0x14, 0x00, 0x00, 0x00, 0x00, 0x00, 0x00, 0x00, 0x00, 0x00, 0x00, 0x00,
     0x00, 0x00, 0x02, 0x00, 0x00, 0x00, 0x02, 0x00, 0x00, 0x00, 0x0b, 0x00, 0x00, 0x00, 0x2e, 0x2e,
     0x2f, 0x65, 0x76, 0x69, 0x6c, 0x2e, 0x74, 0x78, 0x74, 0x68, 0x69]) :: buffer"
  let ?f = "\<lparr>filename = ''../evil.txt'', method = 0, compSize = 2, unCompSize = 2, flags = 0,
        localHeaderOffset = 0\<rparr>"
  let ?d = "\<lparr>filename = ''../d/'', method = 0, compSize = 0, unCompSize = 0, flags = 0,
        localHeaderOffset = 0\<rparr>"
  let ?sf = "emptyDisk(''evil.txt'' \<mapsto> RegularFile [0x68, 0x69])"
  let ?sd = "emptyDisk(''d'' \<mapsto> Directory)"
  have rf: "readFileData ?b ?f = Inr [0x68, 0x69]"
    by (simp add: readFileData_def read_simps)
  have nf: "\<not> endsWithSlash (filename ?f)" and mf: "method ?f = 0"
    and nd: "endsWithSlash (filename ?d)"
    by (simp_all add: endsWithSlash_def)
  have pf: "path_join ''ext'' ''../evil.txt'' = ''evil.txt''" by (simp add: path_simps)
  have pd: "path_join ''ext'' ''../d/'' = ''d/''" by (simp add: path_simps)
  have dn: "path_dirname ''evil.txt'' = ''.''" by (simp add: path_simps)
  have m1: "mkdirSync plainFs ''.'' emptyDisk = (Inr (), emptyDisk)"
    by (simp add: fs_simps)
  have w1: "writeFileSync plainFs ''evil.txt'' [0x68, 0x69] emptyDisk = (Inr (), ?sf)"
    by (simp add: fs_simps)
  have m2: "mkdirSync plainFs ''d/'' emptyDisk = (Inr (), ?sd)"
    by (simp add: fs_simps)
  note forFile = destination_path_unsanitized
    [of ?f plainFs "\<lambda>d. None" ?b "''ext''" emptyDisk "[0x68, 0x69]" ?sf]
  note forDir = destination_path_unsanitized
    [of ?d plainFs "\<lambda>d. None" "[]" "''ext''" emptyDisk "[]" ?sd]
  have one: "extractFile plainFs (\<lambda>d. None) ?b ''ext'' ?f emptyDisk = (Inr (), ?sf)"
    using forFile rf nf mf by (simp add: pf dn m1 w1)
  have two: "fs_readFile plainFs ?sf ''evil.txt'' = Some [0x68, 0x69]"
    using forFile rf nf mf one wellBehaved_plainFs by (simp add: pf)
  have three: "extractFile plainFs (\<lambda>d. None) [] ''ext'' ?d emptyDisk = (Inr (), ?sd)"
    using forDir nd by (simp add: pd m2)
  have four: "fs_isDirectory plainFs ?sd ''d/''"
    using forDir nd three wellBehaved_plainFs by (simp add: pd)
  let ?g = "\<lparr>filename = [CHR 0xEF, CHR 0xBF, CHR 0xBD], method = 0, compSize = 2,
        unCompSize = 2, flags = 0, localHeaderOffset = 0\<rparr>"
  have rh: "readCentralHeader invalidNameArchive 33 = Inr (?g, 80)"
    by (simp add: invalidNameArchive_def readCentralHeader_def read_simps)
  have fl: "readUInt16LE invalidNameArchive (33 + 28) = Inr 1"
    by (simp add: invalidNameArchive_def readUInt16LE_def)
  from destination_path_unsanitized
    [of ?d plainFs "\<lambda>d. None" invalidNameArchive "''ext''" emptyDisk "[]" ?sd 33 ?g 80] rh fl
  have five: "toString invalidNameArchive 79 80 = [CHR 0xEF, CHR 0xBF, CHR 0xBD]"
    by auto
  have six: "\<not> liesUnder ''ext'' ''evil.txt''" "\<not> liesUnder ''ext'' ''d/''"
    "path_join ''ext'' ''../../x'' = ''../x''" "\<not> liesUnder ''ext'' ''../x''"
    "path_join ''ext'' ''x/../../n'' = ''n''" "\<not> liesUnder ''ext'' ''n''"
    "path_join ''a/b'' ''../x'' = ''a/x''" "\<not> liesUnder ''a/b'' ''a/x''"
    by (simp_all add: liesUnder_def path_simps)
  from one two three four five six show ?thesis by simp
qed

text \<open>
  C9 as stated fails for a name whose \<open>..\<close> follows a plain segment: \<open>a/../b.txt\<close>
  is written to \<open>ext/b.txt\<close>, inside the root.
\<close>

theorem dotdot_segment_inside_root:
  "readDirectory dotDotInsideArchive =
     Inr [\<lparr>filename = ''a/../b.txt'', method = 0, compSize = 2, unCompSize = 2, flags = 0,
        localHeaderOffset = 0\<rparr>]
   \<and> ''..'' \<in> set (splitSegments ''a/../b.txt'')
   \<and> parseZipCentralDirectory plainFs (\<lambda>d. None) dotDotInsideArchive ''ext'' emptyDisk =
       (Inr (), emptyDisk(''ext'' \<mapsto> Directory, ''ext/b.txt'' \<mapsto> RegularFile [0x68, 0x69]))
   \<and> liesUnder ''ext'' ''ext/b.txt''"
proof -
  have rd: "readDirectory dotDotInsideArchive =
     Inr [\<lparr>filename = ''a/../b.txt'', method = 0, compSize = 2, unCompSize = 2, flags = 0,
        localHeaderOffset = 0\<rparr>]"
    by (simp add: dotDotInsideArchive_def directory_simps read_simps)
  have rf: "readFileData dotDotInsideArchive
       \<lparr>filename = ''a/../b.txt'', method = 0, compSize = 2, unCompSize = 2, flags = 0,
        localHeaderOffset = 0\<rparr> = Inr [0x68, 0x69]"
    by (simp add: dotDotInsideArchive_def readFileData_def read_simps)
  have pj: "path_join ''ext'' ''a/../b.txt'' = ''ext/b.txt''" by (simp add: path_simps)
  have pd: "path_dirname ''ext/b.txt'' = ''ext''" by (simp add: path_simps)
  have "parseZipCentralDirectory plainFs (\<lambda>d. None) dotDotInsideArchive ''ext'' emptyDisk =
       (Inr (), emptyDisk(''ext'' \<mapsto> Directory, ''ext/b.txt'' \<mapsto> RegularFile [0x68, 0x69]))"
    by (simp add: parseZipCentralDirectory_def rd extractFile_def rf pj pd endsWithSlash_def
        fs_simps)
  moreover have "''..'' \<in> set (splitSegments ''a/../b.txt'')" by simp
  moreover have "liesUnder ''ext'' ''ext/b.txt''" by (simp add: liesUnder_def)
  ultimately show ?thesis using rd by simp
qed

section \<open>The round trip\<close>

lemma le16_decode:
  "v < 2 ^ 16 \<Longrightarrow> unat (of_nat v :: byte) + unat (of_nat (v div 2 ^ 8) :: byte) * 2 ^ 8 = v"
  by (simp add: unat_of_nat)

lemma le32_split:
  fixes v :: nat
  assumes "v < 2 ^ 32"
  shows "v mod 256 + (v div 256 mod 256) * 256 + (v div 65536 mod 256) * 65536
         + (v div 16777216 mod 256) * 16777216 = v"
proof -
  have d: "v div 16777216 mod 256 = v div 16777216"
    using assms by (simp add: less_mult_imp_div_less)
  have s1: "v = v mod 256 + 256 * (v div 256)" by simp
  have s2: "v div 256 = v div 256 mod 256 + 256 * (v div 65536)"
    using div_mult2_eq [of v 256 256] by simp
  have s3: "v div 65536 = v div 65536 mod 256 + 256 * (v div 16777216)"
    using div_mult2_eq [of v 65536 256] by simp
  show ?thesis using d s1 s2 s3 by linarith
qed

lemma le32_decode:
  "v < 2 ^ 32 \<Longrightarrow>
   unat (of_nat v :: byte) + unat (of_nat (v div 2 ^ 8) :: byte) * 2 ^ 8
   + unat (of_nat (v div 2 ^ 16) :: byte) * 2 ^ 16
   + unat (of_nat (v div 2 ^ 24) :: byte) * 2 ^ 24 = v"
  using le32_split [of v] by (simp add: unat_of_nat)

lemma readUInt16LE_at:
  "k + 2 \<le> length xs \<Longrightarrow>
   readUInt16LE (pre @ xs @ post) (length pre + k) = Inr (unat (xs ! k) + unat (xs ! (k + 1)) * 2 ^ 8)"
  by (simp add: readUInt16LE_def nth_append)

lemma readUInt32LE_at:
  "k + 4 \<le> length xs \<Longrightarrow>
   readUInt32LE (pre @ xs @ post) (length pre + k) =
     Inr (unat (xs ! k) + unat (xs ! (k + 1)) * 2 ^ 8 + unat (xs ! (k + 2)) * 2 ^ 16
          + unat (xs ! (k + 3)) * 2 ^ 24)"
  by (simp add: readUInt32LE_def nth_append)

lemma toString_nameBytes: "map (\<lambda>b. char_of (unat b)) (nameBytes s) = s"
  by (simp add: nameBytes_def unat_of_nat comp_def map_idI)

lemma slice_buf_at:
  "k + n \<le> length xs \<Longrightarrow>
   slice_buf (pre @ xs @ post) (length pre + k) (length pre + k + n) = take n (drop k xs)"
  by (simp add: slice_buf_def)

lemma length_nameBytes [simp]: "length (nameBytes s) = length s"
  by (simp add: nameBytes_def)

lemma length_le16 [simp]: "length (le16 v) = 2"
  by (simp add: le16_def)

lemma length_le32 [simp]: "length (le32 v) = 4"
  by (simp add: le32_def)

lemma length_centralHeader [simp]: "length (centralHeader m off) = 46"
  by (simp add: centralHeader_def)

lemma length_centralRecord:
  "length (centralRecord m off) =
     46 + length (m_name m) + length (m_extraCentral m) + length (m_comment m)"
  by (simp add: centralRecord_def)

lemma readCentralHeader_centralRecord:
  assumes fits: "memberFits m" and off: "off < 2 ^ 32"
  shows "readCentralHeader (pre @ centralRecord m off @ post) (length pre) =
           Inr (entryOf m off, length pre + length (centralRecord m off))"
proof -
  let ?xs = "centralRecord m off"
  let ?buf = "pre @ ?xs @ post"
  from fits have f: "length (m_name m) < 2 ^ 16" "m_method m < 2 ^ 16" "m_flags m < 2 ^ 16"
    "length (m_extraCentral m) < 2 ^ 16" "length (m_comment m) < 2 ^ 16"
    "length (m_payload m) < 2 ^ 32" "length (m_content m) < 2 ^ 32"
    and wf: "utf8Replace (nameBytes (m_name m)) = nameBytes (m_name m)"
    by (simp_all add: memberFits_def wellFormedName_def)
  have len: "46 \<le> length ?xs" by (simp add: length_centralRecord)
  have r16: "\<exists>w. readUInt16LE ?buf (length pre + k) = Inr w" if "k + 2 \<le> 46" for k
    using that len by (simp add: readUInt16LE_at)
  have r32: "\<exists>w. readUInt32LE ?buf (length pre + k) = Inr w" if "k + 4 \<le> 46" for k
    using that len by (simp add: readUInt32LE_at)
  have sig: "readUInt32LE ?buf (length pre) = Inr 0x02014b50"
    using readUInt32LE_at [of 0 ?xs pre post] len
    by (simp add: centralRecord_def centralHeader_def le16_def le32_def)
  have fl: "readUInt16LE ?buf (length pre + 8) = Inr (m_flags m)"
    using readUInt16LE_at [of 8 ?xs pre post] len le16_decode [OF f(3)]
    by (simp add: centralRecord_def centralHeader_def le16_def le32_def)
  have me: "readUInt16LE ?buf (length pre + 10) = Inr (m_method m)"
    using readUInt16LE_at [of 10 ?xs pre post] len le16_decode [OF f(2)]
    by (simp add: centralRecord_def centralHeader_def le16_def le32_def)
  have cs: "readUInt32LE ?buf (length pre + 20) = Inr (length (m_payload m))"
    using readUInt32LE_at [of 20 ?xs pre post] len le32_decode [OF f(6)]
    by (simp add: centralRecord_def centralHeader_def le16_def le32_def)
  have us: "readUInt32LE ?buf (length pre + 24) = Inr (length (m_content m))"
    using readUInt32LE_at [of 24 ?xs pre post] len le32_decode [OF f(7)]
    by (simp add: centralRecord_def centralHeader_def le16_def le32_def)
  have fn: "readUInt16LE ?buf (length pre + 28) = Inr (length (m_name m))"
    using readUInt16LE_at [of 28 ?xs pre post] len le16_decode [OF f(1)]
    by (simp add: centralRecord_def centralHeader_def le16_def le32_def)
  have xl: "readUInt16LE ?buf (length pre + 30) = Inr (length (m_extraCentral m))"
    using readUInt16LE_at [of 30 ?xs pre post] len le16_decode [OF f(4)]
    by (simp add: centralRecord_def centralHeader_def le16_def le32_def)
  have cl: "readUInt16LE ?buf (length pre + 32) = Inr (length (m_comment m))"
    using readUInt16LE_at [of 32 ?xs pre post] len le16_decode [OF f(5)]
    by (simp add: centralRecord_def centralHeader_def le16_def le32_def)
  have lo: "readUInt32LE ?buf (length pre + 42) = Inr off"
    using readUInt32LE_at [of 42 ?xs pre post] len le32_decode [OF off]
    by (simp add: centralRecord_def centralHeader_def le16_def le32_def)
  obtain w4 where w4: "readUInt16LE ?buf (length pre + 4) = Inr w4" using r16 [of 4] by auto
  obtain w6 where w6: "readUInt16LE ?buf (length pre + 6) = Inr w6" using r16 [of 6] by auto
  obtain w12 where w12: "readUInt16LE ?buf (length pre + 12) = Inr w12" using r16 [of 12] by auto
  obtain w14 where w14: "readUInt16LE ?buf (length pre + 14) = Inr w14" using r16 [of 14] by auto
  obtain w16 where w16: "readUInt32LE ?buf (length pre + 16) = Inr w16" using r32 [of 16] by auto
  obtain w34 where w34: "readUInt16LE ?buf (length pre + 34) = Inr w34" using r16 [of 34] by auto
  obtain w36 where w36: "readUInt16LE ?buf (length pre + 36) = Inr w36" using r16 [of 36] by auto
  obtain w38 where w38: "readUInt32LE ?buf (length pre + 38) = Inr w38" using r32 [of 38] by auto
  have nm: "toString ?buf (length pre + 46) (length pre + 46 + length (m_name m)) = m_name m"
  proof -
    have "slice_buf ?buf (length pre + 46) (length pre + 46 + length (m_name m))
        = take (length (m_name m)) (drop 46 ?xs)"
      by (rule slice_buf_at) (simp add: length_centralRecord)
    also have "\<dots> = nameBytes (m_name m)"
      by (simp add: centralRecord_def)
    finally show ?thesis by (simp add: toString_def wf toString_nameBytes)
  qed
  show ?thesis
    unfolding readCentralHeader_def
    by (simp add: sig fl me cs us fn xl cl lo w4 w6 w12 w14 w16 w34 w36 w38 nm entryOf_def
        length_centralRecord)
qed

lemma length_localHeader [simp]: "length (localHeader m) = 30"
  by (simp add: localHeader_def)

lemma length_localRecord:
  "length (localRecord m) =
     30 + length (m_name m) + length (m_extraLocal m) + length (m_payload m)
     + length (dataDescriptor m)"
  by (simp add: localRecord_def)

lemma readFileData_localRecord:
  assumes fits: "memberFits m"
    and f: "localHeaderOffset f = length pre" "compSize f = length (m_payload m)"
  shows "readFileData (pre @ localRecord m @ post) f = Inr (m_payload m)"
proof -
  let ?xs = "localRecord m"
  let ?buf = "pre @ ?xs @ post"
  from fits have fit: "length (m_name m) < 2 ^ 16" "length (m_extraLocal m) < 2 ^ 16"
    by (simp_all add: memberFits_def)
  have len: "30 \<le> length ?xs" by (simp add: length_localRecord)
  have sig: "readUInt32LE ?buf (length pre) = Inr 0x04034b50"
    using readUInt32LE_at [of 0 ?xs pre post] len
    by (simp add: localRecord_def localHeader_def le16_def le32_def)
  obtain w4 where w4: "readUInt16LE ?buf (length pre + 4) = Inr w4"
    using len by (simp add: readUInt16LE_at)
  obtain w6 where w6: "readUInt16LE ?buf (length pre + 6) = Inr w6"
    using len by (simp add: readUInt16LE_at)
  obtain w8 where w8: "readUInt16LE ?buf (length pre + 8) = Inr w8"
    using len by (simp add: readUInt16LE_at)
  have fn: "readUInt16LE ?buf (length pre + 26) = Inr (length (m_name m))"
    using readUInt16LE_at [of 26 ?xs pre post] len le16_decode [OF fit(1)]
    by (cases "deferredSizes m") (simp_all add: localRecord_def localHeader_def le16_def le32_def)
  have xl: "readUInt16LE ?buf (length pre + 28) = Inr (length (m_extraLocal m))"
    using readUInt16LE_at [of 28 ?xs pre post] len le16_decode [OF fit(2)]
    by (cases "deferredSizes m") (simp_all add: localRecord_def localHeader_def le16_def le32_def)
  let ?k = "30 + length (m_name m) + length (m_extraLocal m)"
  have "slice_buf ?buf (length pre + ?k) (length pre + ?k + length (m_payload m))
      = take (length (m_payload m)) (drop ?k ?xs)"
    by (rule slice_buf_at) (simp add: length_localRecord)
  also have "\<dots> = m_payload m"
    by (simp add: localRecord_def)
  finally have pl: "slice_buf ?buf (length pre + 30 + length (m_name m) + length (m_extraLocal m))
      (length pre + 30 + length (m_name m) + length (m_extraLocal m) + length (m_payload m))
      = m_payload m"
    by (simp add: add.assoc)
  show ?thesis
    unfolding readFileData_def Let_def
    by (simp add: f sig w4 w6 w8 fn xl pl)
qed

lemma extractFile_member:
  assumes "memberFits m" and "decodes inflate m"
  shows "extractFile fsys inflate (pre @ localRecord m @ post) outFolder (entryOf m (length pre)) s
           = performCalls fsys (memberCalls outFolder m) s"
proof (cases "endsWithSlash (m_name m)")
  case True
  then show ?thesis
    by (simp add: extractFile_def entryOf_def memberCalls_def performCall_def
        split: prod.splits sum.splits)
next
  case False
  have rf: "readFileData (pre @ localRecord m @ post) (entryOf m (length pre)) = Inr (m_payload m)"
    by (rule readFileData_localRecord [OF assms(1)]) (simp_all add: entryOf_def)
  from False assms(2) consider "m_method m = 0" "m_payload m = m_content m"
    | "m_method m = 8" "inflate (m_payload m) = Some (m_content m)"
    by (auto simp: decodes_def)
  then show ?thesis
  proof cases
    case 1
    with False rf show ?thesis
      by (simp add: extractFile_def entryOf_def memberCalls_def performCall_def Let_def
          split: prod.splits sum.splits)
  next
    case 2
    with False rf show ?thesis
      by (simp add: extractFile_def entryOf_def memberCalls_def performCall_def
          inflateRawSync_def Let_def split: prod.splits sum.splits)
  qed
qed

lemma extractFiles_members:
  assumes "\<forall>m \<in> set ms. memberFits m \<and> decodes inflate m"
  shows "extractFiles fsys inflate (pre @ localRecords ms @ post) outFolder
           (entriesOf (length pre) ms) s
           = performCalls fsys (concat (map (memberCalls outFolder) ms)) s"
  using assms
proof (induction ms arbitrary: pre s)
  case Nil
  then show ?case by simp
next
  case (Cons m ms)
  have one: "extractFile fsys inflate (pre @ localRecord m @ localRecords ms @ post) outFolder
               (entryOf m (length pre)) s = performCalls fsys (memberCalls outFolder m) s"
    using Cons.prems by (intro extractFile_member) simp_all
  have rest: "extractFiles fsys inflate ((pre @ localRecord m) @ localRecords ms @ post) outFolder
                (entriesOf (length (pre @ localRecord m)) ms) s1
              = performCalls fsys (concat (map (memberCalls outFolder) ms)) s1" for s1
    using Cons.prems by (intro Cons.IH) simp
  from one rest show ?case
    by (simp add: performCalls_append split: prod.splits sum.splits)
qed

lemma localRecord_min: "30 \<le> length (localRecord m)"
  by (simp add: length_localRecord)

lemma readCentralDirectory_centralDirectory:
  assumes "\<forall>m \<in> set ms. memberFits m" and "off + length (localRecords ms) \<le> 2 ^ 32"
  shows "readCentralDirectory (pre @ centralDirectory off ms @ post) (length pre) (length ms)
           = Inr (entriesOf off ms)"
  using assms
proof (induction ms arbitrary: pre off)
  case Nil
  then show ?case by simp
next
  case (Cons m ms)
  let ?off' = "off + length (localRecord m)"
  from Cons.prems(2) localRecord_min [of m] have off: "off < 2 ^ 32" by simp
  from Cons.prems(1) have fits: "memberFits m" by simp
  have hd: "readCentralHeader (pre @ centralRecord m off @ centralDirectory ?off' ms @ post)
              (length pre) = Inr (entryOf m off, length pre + length (centralRecord m off))"
    by (rule readCentralHeader_centralRecord [OF fits off])
  have tl: "readCentralDirectory ((pre @ centralRecord m off) @ centralDirectory ?off' ms @ post)
              (length (pre @ centralRecord m off)) (length ms) = Inr (entriesOf ?off' ms)"
    using Cons.prems by (intro Cons.IH) (simp_all add: add.assoc)
  from hd tl show ?case by simp
qed

lemma length_endRecord: "length (endRecord n cdSize cdOffset acomment) = 22 + length acomment"
  by (simp add: endRecord_def)

lemma length_buildZip:
  "length (buildZip ms acomment) = recordPosition ms + 22 + length acomment"
  by (simp add: buildZip_def recordPosition_def length_endRecord)

lemma findEocd_buildZip:
  assumes "length acomment < 2 ^ 16" and only: "signatureOnlyAtRecord ms acomment"
  shows "findEocd (buildZip ms acomment) (int (length (buildZip ms acomment)) - 4)
           = Inr (int (recordPosition ms))"
proof -
  let ?buf = "buildZip ms acomment"
  let ?p = "recordPosition ms"
  let ?E = "endRecord (length ms) (length (centralDirectory 0 ms)) (length (localRecords ms)) acomment"
  have buf: "?buf = (localRecords ms @ centralDirectory 0 ms) @ ?E @ []"
    by (simp add: buildZip_def)
  have "readUInt32LE ((localRecords ms @ centralDirectory 0 ms) @ ?E @ [])
          (length (localRecords ms @ centralDirectory 0 ms) + 0) = Inr eocdSig"
    by (subst readUInt32LE_at) (simp_all add: endRecord_def le16_def le32_def eocdSig_def)
  then have "readUInt32LE ?buf ?p = Inr eocdSig"
    by (simp add: recordPosition_def buildZip_def)
  then have at: "signatureAt ?buf (int ?p)"
    unfolding signatureAt_def by (simp only: nat_int)
  have inW: "int ?p \<in> searchWindow ?buf"
    using assms(1) by (simp add: searchWindow_def length_buildZip)
  have "Max {q \<in> searchWindow ?buf. signatureAt ?buf q} = int ?p"
  proof (rule Max_eqI)
    show "finite {q \<in> searchWindow ?buf. signatureAt ?buf q}"
      by (rule finite_Collect_conjI) (simp add: searchWindow_def)
    show "int ?p \<in> {q \<in> searchWindow ?buf. signatureAt ?buf q}" using at inW by simp
    fix y assume "y \<in> {q \<in> searchWindow ?buf. signatureAt ?buf q}"
    with only show "y \<le> int ?p"
      unfolding signatureOnlyAtRecord_def by force
  qed
  moreover have "\<exists>q \<in> searchWindow ?buf. signatureAt ?buf q" using at inW by blast
  ultimately show ?thesis using findEocd_window [of ?buf] by simp
qed

lemma readDirectory_buildZip:
  assumes fits: "archiveFits ms acomment" and only: "signatureOnlyAtRecord ms acomment"
  shows "readDirectory (buildZip ms acomment) = Inr (entriesOf 0 ms)"
proof -
  let ?buf = "buildZip ms acomment"
  let ?P = "localRecords ms @ centralDirectory 0 ms"
  let ?E = "endRecord (length ms) (length (centralDirectory 0 ms)) (length (localRecords ms)) acomment"
  from fits have n: "length ms < 2 ^ 16" and mf: "\<forall>m \<in> set ms. memberFits m"
    and lo: "length (localRecords ms) < 2 ^ 32" and cd: "length (centralDirectory 0 ms) < 2 ^ 32"
    and ac: "length acomment < 2 ^ 16"
    by (simp_all add: archiveFits_def)
  have pos: "findEocd ?buf (int (length ?buf) - 4) = Inr (int (recordPosition ms))"
    by (rule findEocd_buildZip [OF ac only])
  have buf: "?buf = ?P @ ?E @ []" by (simp add: buildZip_def)
  have p: "recordPosition ms = length ?P" by (simp add: recordPosition_def)
  have len: "22 \<le> length ?E" by (simp add: length_endRecord)
  have total: "readUInt16LE (?P @ ?E @ []) (length ?P + 10) = Inr (length ms)"
    using readUInt16LE_at [of 10 ?E ?P "[]"] len le16_decode [OF n]
    by (simp add: endRecord_def le16_def le32_def)
  have size: "readUInt32LE (?P @ ?E @ []) (length ?P + 12) = Inr (length (centralDirectory 0 ms))"
    using readUInt32LE_at [of 12 ?E ?P "[]"] len le32_decode [OF cd]
    by (simp add: endRecord_def le16_def le32_def)
  have offs: "readUInt32LE (?P @ ?E @ []) (length ?P + 16) = Inr (length (localRecords ms))"
    using readUInt32LE_at [of 16 ?E ?P "[]"] len le32_decode [OF lo]
    by (simp add: endRecord_def le16_def le32_def)
  have dir: "readCentralDirectory (localRecords ms @ centralDirectory 0 ms @ ?E)
               (length (localRecords ms)) (length ms) = Inr (entriesOf 0 ms)"
    using mf lo by (intro readCentralDirectory_centralDirectory) simp_all
  have range: "length (localRecords ms) + length (centralDirectory 0 ms) \<le> length ?buf"
    by (simp add: buildZip_def)
  have dir': "readCentralDirectory ?buf (length (localRecords ms)) (length ms) = Inr (entriesOf 0 ms)"
    using dir by (simp add: buildZip_def)
  from total size offs have reads:
    "readUInt16LE ?buf (recordPosition ms + 10) = Inr (length ms)"
    "readUInt32LE ?buf (recordPosition ms + 12) = Inr (length (centralDirectory 0 ms))"
    "readUInt32LE ?buf (recordPosition ms + 16) = Inr (length (localRecords ms))"
    unfolding p buf by simp_all
  show ?thesis
    unfolding readDirectory_def
    using range by (simp add: pos reads dir')
qed

lemma extractBuiltArchive:
  assumes "archiveFits ms acomment" and "\<forall>m \<in> set ms. decodes inflate m"
    and "signatureOnlyAtRecord ms acomment"
  shows "parseZipCentralDirectory fsys inflate (buildZip ms acomment) outFolder s
           = performCalls fsys (MkdirSync outFolder # concat (map (memberCalls outFolder) ms)) s"
proof -
  from assms(1) have mf: "\<forall>m \<in> set ms. memberFits m" by (simp add: archiveFits_def)
  have rd: "readDirectory (buildZip ms acomment) = Inr (entriesOf 0 ms)"
    by (rule readDirectory_buildZip [OF assms(1) assms(3)])
  have "extractFiles fsys inflate ([] @ localRecords ms @
          centralDirectory 0 ms @ endRecord (length ms) (length (centralDirectory 0 ms))
            (length (localRecords ms)) acomment) outFolder (entriesOf (length ([] :: buffer)) ms) s0
        = performCalls fsys (concat (map (memberCalls outFolder) ms)) s0" for s0
    using mf assms(2) by (intro extractFiles_members) simp
  then have run: "extractFiles fsys inflate (buildZip ms acomment) outFolder (entriesOf 0 ms) s0
        = performCalls fsys (concat (map (memberCalls outFolder) ms)) s0" for s0
    by (simp add: buildZip_def)
  show ?thesis
    by (simp add: parseZipCentralDirectory_def rd run performCall_def
        split: prod.splits sum.splits)
qed

lemma lastWrite_memberCalls:
  "lastWrite fsys (memberCalls outFolder m) p =
     (if writesPath fsys outFolder p m then Some (m_content m) else None)"
  by (auto simp: memberCalls_def writesPath_def)

lemma lastWrite_later_members:
  "\<forall>m \<in> set ms. \<not> writesPath fsys outFolder p m \<Longrightarrow>
   lastWrite fsys (concat (map (memberCalls outFolder) ms)) p = None"
  by (induction ms) (simp_all add: lastWrite_append lastWrite_memberCalls)

text \<open>
  C1 (amended). Round trip: for every archive of N members, N from 0 on, whose values fit
  their fields, whose names are well-formed UTF-8, whose regular members are stored or
  deflated, and in which the signature of the end record does not occur again after the
  start of that record, the extraction does what these calls do, made in this order
  until the file system refuses one: the creation of the destination root, then member by
  member in directory order the creation of the directory of a directory marker, or the
  creation of the parent directory and the writing of the file with the content of the
  member. So the extraction succeeds exactly when the file system refuses none of them.
  When it does, on a well-behaved file system, it leaves the root, the directory of
  every directory marker, and for every regular member the file at the join of the root
  and its name, holding the exact content of the member unless a later regular member
  writes the same file.
\<close>

theorem archive_round_trip:
  assumes "archiveFits ms acomment" and "\<forall>m \<in> set ms. decodes inflate m"
    and "signatureOnlyAtRecord ms acomment"
  shows "parseZipCentralDirectory fsys inflate (buildZip ms acomment) outFolder s
           = performCalls fsys (MkdirSync outFolder # concat (map (memberCalls outFolder) ms)) s
       \<and> (wellBehaved fsys
            \<and> parseZipCentralDirectory fsys inflate (buildZip ms acomment) outFolder s
                = (Inr (), s')
          \<longrightarrow> fs_isDirectory fsys s' outFolder
            \<and> (\<forall>m \<in> set ms. endsWithSlash (m_name m) \<longrightarrow>
                  fs_isDirectory fsys s' (path_join outFolder (m_name m)))
            \<and> (\<forall>pre m post.
                  ms = pre @ m # post \<and> \<not> endsWithSlash (m_name m)
                  \<and> (\<forall>m' \<in> set post.
                        \<not> writesPath fsys outFolder (path_join outFolder (m_name m)) m')
                  \<longrightarrow> fs_readFile fsys s' (path_join outFolder (m_name m))
                        = Some (m_content m)))"
proof (intro conjI impI)
  let ?calls = "MkdirSync outFolder # concat (map (memberCalls outFolder) ms)"
  show run: "parseZipCentralDirectory fsys inflate (buildZip ms acomment) outFolder s
           = performCalls fsys ?calls s"
    using assms by (rule extractBuiltArchive)
  assume "wellBehaved fsys
            \<and> parseZipCentralDirectory fsys inflate (buildZip ms acomment) outFolder s
                = (Inr (), s')"
  with run have wb: "wellBehaved fsys" and ok: "performCalls fsys ?calls s = (Inr (), s')"
    by simp_all
  show "fs_isDirectory fsys s' outFolder"
    by (rule performCalls_isDirectory [OF wb ok]) simp
  show "\<forall>m \<in> set ms. endsWithSlash (m_name m) \<longrightarrow>
          fs_isDirectory fsys s' (path_join outFolder (m_name m))"
  proof (intro ballI impI)
    fix m assume "m \<in> set ms" and "endsWithSlash (m_name m)"
    then have "MkdirSync (path_join outFolder (m_name m)) \<in> set ?calls"
      by (auto simp: memberCalls_def)
    then show "fs_isDirectory fsys s' (path_join outFolder (m_name m))"
      by (intro performCalls_isDirectory [OF wb ok]) simp
  qed
  show "\<forall>pre m post.
          ms = pre @ m # post \<and> \<not> endsWithSlash (m_name m)
          \<and> (\<forall>m' \<in> set post. \<not> writesPath fsys outFolder (path_join outFolder (m_name m)) m')
          \<longrightarrow> fs_readFile fsys s' (path_join outFolder (m_name m)) = Some (m_content m)"
  proof (intro allI impI)
    fix pre m post
    assume h: "ms = pre @ m # post \<and> \<not> endsWithSlash (m_name m)
          \<and> (\<forall>m' \<in> set post. \<not> writesPath fsys outFolder (path_join outFolder (m_name m)) m')"
    let ?p = "path_join outFolder (m_name m)"
    from wb have same: "fs_samePath fsys ?p ?p" by (simp add: wellBehaved_def)
    from h have later: "lastWrite fsys (concat (map (memberCalls outFolder) post)) ?p = None"
      by (intro lastWrite_later_members) simp
    from h same have own: "lastWrite fsys (memberCalls outFolder m) ?p = Some (m_content m)"
      by (simp add: lastWrite_memberCalls writesPath_def)
    from h have "?calls = (MkdirSync outFolder # concat (map (memberCalls outFolder) pre))
        @ memberCalls outFolder m @ concat (map (memberCalls outFolder) post)"
      by simp
    then have "lastWrite fsys ?calls ?p = Some (m_content m)"
      by (simp only: lastWrite_append later own option.case)
    with performCalls_readFile [OF wb ok, of ?p]
    show "fs_readFile fsys s' ?p = Some (m_content m)" by simp
  qed
qed

lemma readUInt32LE_suffix:
  "readUInt32LE (pre @ xs) (length pre + k) = readUInt32LE xs k"
  by (simp add: readUInt32LE_def nth_append)

lemma signatureOnlyAtRecord_endRecord:
  assumes "\<forall>k \<in> set [1 ..< 19 + length acomment].
             readUInt32LE (endRecord (length ms) (length (centralDirectory 0 ms))
                             (length (localRecords ms)) acomment) k \<noteq> Inr eocdSig"
  shows "signatureOnlyAtRecord ms acomment"
  unfolding signatureOnlyAtRecord_def
proof (intro ballI impI)
  let ?E = "endRecord (length ms) (length (centralDirectory 0 ms)) (length (localRecords ms)) acomment"
  let ?P = "localRecords ms @ centralDirectory 0 ms"
  fix q assume w: "q \<in> searchWindow (buildZip ms acomment)" and after: "int (recordPosition ms) < q"
  define k where "k = nat (q - int (recordPosition ms))"
  from w after have k: "k \<in> set [1 ..< 19 + length acomment]"
    by (auto simp: k_def searchWindow_def length_buildZip)
  from after have q: "nat q = length ?P + k" by (simp add: k_def recordPosition_def)
  have "readUInt32LE (?P @ ?E) (length ?P + k) = readUInt32LE ?E k"
    by (rule readUInt32LE_suffix)
  with assms k q show "\<not> signatureAt (buildZip ms acomment) q"
    by (simp add: signatureAt_def buildZip_def)
qed

lemma byte_of_nat_eq: "((of_nat v :: byte) = w) = (v mod 256 = unat w)"
  by (auto simp: word_unat_eq_iff unat_of_nat)

lemma low_byte_unique:
  fixes a x V :: nat
  assumes "a < 256" and "a + 256 * x = V"
  shows "a = V mod 256" and "x = V div 256"
  using assms by auto

lemma signature_bytes:
  "readUInt32LE buf k = Inr eocdSig \<longleftrightarrow>
     k + 4 \<le> length buf \<and> buf ! k = 0x50 \<and> buf ! (k + 1) = 0x4b
     \<and> buf ! (k + 2) = 0x05 \<and> buf ! (k + 3) = 0x06"
proof (cases "k + 4 \<le> length buf")
  case False
  then show ?thesis by (simp add: readUInt32LE_def)
next
  case True
  let ?a = "unat (buf ! k)" and ?b = "unat (buf ! (k + 1))"
  and ?c = "unat (buf ! (k + 2))" and ?d = "unat (buf ! (k + 3))"
  have byte_bound: "unat w < 256" for w :: byte
    using unsigned_less [of w, where ?'a = nat] by simp
  have bnd: "?a < 256" "?b < 256" "?c < 256" "?d < 256"
    by (rule byte_bound)+
  have "?a + ?b * 2 ^ 8 + ?c * 2 ^ 16 + ?d * 2 ^ 24 = eocdSig
        \<longleftrightarrow> ?a = 0x50 \<and> ?b = 0x4b \<and> ?c = 0x05 \<and> ?d = 0x06"
  proof
    assume eq: "?a + ?b * 2 ^ 8 + ?c * 2 ^ 16 + ?d * 2 ^ 24 = eocdSig"
    then have e1: "?a + 256 * (?b + 256 * (?c + 256 * ?d)) = 101010256"
      by (simp add: eocdSig_def)
    from low_byte_unique [OF bnd(1) e1] have a: "?a = 80" and r1: "?b + 256 * (?c + 256 * ?d) = 394571"
      by simp_all
    from low_byte_unique [OF bnd(2) r1] have b: "?b = 75" and r2: "?c + 256 * ?d = 1541"
      by simp_all
    from low_byte_unique [OF bnd(3) r2] have c: "?c = 5" and d: "?d = 6"
      by simp_all
    from a b c d show "?a = 0x50 \<and> ?b = 0x4b \<and> ?c = 0x05 \<and> ?d = 0x06" by simp
  next
    assume "?a = 0x50 \<and> ?b = 0x4b \<and> ?c = 0x05 \<and> ?d = 0x06"
    then show "?a + ?b * 2 ^ 8 + ?c * 2 ^ 16 + ?d * 2 ^ 24 = eocdSig"
      by (simp add: eocdSig_def)
  qed
  moreover have "?a = 0x50 \<longleftrightarrow> buf ! k = 0x50" "?b = 0x4b \<longleftrightarrow> buf ! (k + 1) = 0x4b"
    "?c = 0x05 \<longleftrightarrow> buf ! (k + 2) = 0x05" "?d = 0x06 \<longleftrightarrow> buf ! (k + 3) = 0x06"
    by (simp_all add: word_unat_eq_iff)
  ultimately show ?thesis using True by (simp add: readUInt32LE_def)
qed

text \<open>
  The condition holds for every archive without a comment that has fewer than 19280
  members and a central directory shorter than \<open>0x054b5000\<close> bytes that does not start
  at offset \<open>0x06054b50\<close>: the fields of its end record cannot spell the signature.
\<close>

lemma signatureOnlyAtRecord_plain:
  assumes n: "length ms < 19280"
    and cs: "length (centralDirectory 0 ms) < 0x054b5000"
    and co: "length (localRecords ms) < 2 ^ 32" "length (localRecords ms) \<noteq> 0x06054b50"
  shows "signatureOnlyAtRecord ms []"
proof (rule signatureOnlyAtRecord_endRecord)
  let ?n = "length ms"
  let ?s = "length (centralDirectory 0 ms)"
  let ?o = "length (localRecords ms)"
  have nhi: "?n div 256 < 76" using n by (simp add: less_mult_imp_div_less)
  have k11: "(of_nat (?n div 256) :: byte) \<noteq> 0x50"
    using nhi by (simp add: byte_of_nat_eq)
  have k10: "\<not> ((of_nat ?n :: byte) = 0x50 \<and> (of_nat (?n div 256) :: byte) = 0x4b)"
  proof
    assume "(of_nat ?n :: byte) = 0x50 \<and> (of_nat (?n div 256) :: byte) = 0x4b"
    then have "?n mod 256 = 80" and "?n div 256 mod 256 = 75" by (simp_all add: byte_of_nat_eq)
    with nhi have "?n mod 256 = 80" and "?n div 256 = 75" by simp_all
    then have "?n = 19280" using div_mult_mod_eq [of ?n 256] by simp
    with n show False by simp
  qed
  have shi: "?s div 16777216 < 6" using cs by (simp add: less_mult_imp_div_less)
  have k12: "(of_nat (?s div 16777216) :: byte) \<noteq> 0x06"
    and k14: "(of_nat (?s div 16777216) :: byte) \<noteq> 0x4b"
    and k15: "(of_nat (?s div 16777216) :: byte) \<noteq> 0x50"
    using shi by (simp_all add: byte_of_nat_eq)
  have k13: "\<not> ((of_nat (?s div 256) :: byte) = 0x50 \<and> (of_nat (?s div 65536) :: byte) = 0x4b
               \<and> (of_nat (?s div 16777216) :: byte) = 0x05)"
  proof
    assume "(of_nat (?s div 256) :: byte) = 0x50 \<and> (of_nat (?s div 65536) :: byte) = 0x4b
               \<and> (of_nat (?s div 16777216) :: byte) = 0x05"
    then have b1: "?s div 256 mod 256 = 80" and b2: "?s div 65536 mod 256 = 75"
      and b3: "?s div 16777216 mod 256 = 5" by (simp_all add: byte_of_nat_eq)
    from b3 shi have w: "?s div 16777216 = 5" by simp
    have "?s div 65536 = ?s div 65536 mod 256 + 256 * (?s div 16777216)"
      using div_mult2_eq [of ?s 65536 256] by simp
    with b2 w have z: "?s div 65536 = 1355" by simp
    have "?s div 256 = ?s div 256 mod 256 + 256 * (?s div 65536)"
      using div_mult2_eq [of ?s 256 256] by simp
    with b1 z have y: "?s div 256 = 346960" by simp
    have "256 * (?s div 256) \<le> ?s" by simp
    with y cs show False by simp
  qed
  have k16: "\<not> ((of_nat ?o :: byte) = 0x50 \<and> (of_nat (?o div 256) :: byte) = 0x4b
               \<and> (of_nat (?o div 65536) :: byte) = 0x05 \<and> (of_nat (?o div 16777216) :: byte) = 0x06)"
  proof
    assume "(of_nat ?o :: byte) = 0x50 \<and> (of_nat (?o div 256) :: byte) = 0x4b
               \<and> (of_nat (?o div 65536) :: byte) = 0x05 \<and> (of_nat (?o div 16777216) :: byte) = 0x06"
    then have "?o mod 256 = 80" "?o div 256 mod 256 = 75" "?o div 65536 mod 256 = 5"
      "?o div 16777216 mod 256 = 6" by (simp_all add: byte_of_nat_eq)
    with le32_split [OF co(1)] have "?o = 101010256" by simp
    with co(2) show False by simp
  qed
  show "\<forall>k \<in> set [1 ..< 19 + length ([] :: buffer)].
          readUInt32LE (endRecord ?n ?s ?o []) k \<noteq> Inr eocdSig"
    using k10 k11 k12 k13 k14 k15 k16
    by (auto simp add: upt_rec signature_bytes endRecord_def le16_def le32_def)
qed

lemmas member_simps = dirMember_def storedMember_def deflatedMember_def plainMember_def
  rewrittenMember_def nestedMember_def

lemmas length_simps = length_localRecord length_centralRecord dataDescriptor_def deferredSizes_def

lemmas fits_simps = memberFits_def wellFormedName_def nameBytes_def inRange_def

text \<open>
  The round trip of a directory marker, a stored file in that directory and a deflated
  file with a data descriptor, into an empty directory of the example file system.
\<close>

theorem archive_round_trip_witness:
  "parseZipCentralDirectory plainFs inflateStored
     (buildZip [dirMember, storedMember, deflatedMember] []) ''out'' emptyDisk
   = (Inr (), emptyDisk(''out'' \<mapsto> Directory, ''out/d'' \<mapsto> Directory,
                        ''out/d/a.txt'' \<mapsto> RegularFile [0x68, 0x69],
                        ''out/b'' \<mapsto> RegularFile [0x68, 0x69]))
   \<and> fs_isDirectory plainFs
         (emptyDisk(''out'' \<mapsto> Directory, ''out/d'' \<mapsto> Directory,
                    ''out/d/a.txt'' \<mapsto> RegularFile [0x68, 0x69],
                    ''out/b'' \<mapsto> RegularFile [0x68, 0x69])) ''out/d/''
   \<and> fs_readFile plainFs
         (emptyDisk(''out'' \<mapsto> Directory, ''out/d'' \<mapsto> Directory,
                    ''out/d/a.txt'' \<mapsto> RegularFile [0x68, 0x69],
                    ''out/b'' \<mapsto> RegularFile [0x68, 0x69])) ''out/d/a.txt''
       = Some [0x68, 0x69]
   \<and> fs_readFile plainFs
         (emptyDisk(''out'' \<mapsto> Directory, ''out/d'' \<mapsto> Directory,
                    ''out/d/a.txt'' \<mapsto> RegularFile [0x68, 0x69],
                    ''out/b'' \<mapsto> RegularFile [0x68, 0x69])) ''out/b''
       = Some [0x68, 0x69]"
proof -
  let ?ms = "[dirMember, storedMember, deflatedMember]"
  let ?s' = "emptyDisk(''out'' \<mapsto> Directory, ''out/d'' \<mapsto> Directory,
                    ''out/d/a.txt'' \<mapsto> RegularFile [0x68, 0x69],
                    ''out/b'' \<mapsto> RegularFile [0x68, 0x69])"
  have ll: "length (localRecords ?ms) = 125"
    by (simp add: member_simps length_simps)
  have lc: "length (centralDirectory 0 ?ms) = 148"
    by (simp add: member_simps length_simps)
  have fits: "archiveFits ?ms []"
    unfolding archiveFits_def ll lc by (simp add: fits_simps member_simps)
  have dec: "\<forall>m \<in> set ?ms. decodes inflateStored m"
    by (simp add: decodes_def member_simps endsWithSlash_def inflateStored_def)
  have only: "signatureOnlyAtRecord ?ms []"
  proof (rule signatureOnlyAtRecord_plain)
    show "length ?ms < 19280" by simp
    show "length (centralDirectory 0 ?ms) < 0x054b5000" unfolding lc by simp
    show "length (localRecords ?ms) < 2 ^ 32" unfolding ll by simp
    show "length (localRecords ?ms) \<noteq> 0x06054b50" unfolding ll by simp
  qed
  have p1: "path_join ''out'' ''d/'' = ''out/d/''" by (simp add: path_simps)
  have p2: "path_join ''out'' ''d/a.txt'' = ''out/d/a.txt''" by (simp add: path_simps)
  have p3: "path_join ''out'' ''b'' = ''out/b''" by (simp add: path_simps)
  have d2: "path_dirname ''out/d/a.txt'' = ''out/d''" by (simp add: path_simps)
  have d3: "path_dirname ''out/b'' = ''out''" by (simp add: path_simps)
  have calls: "concat (map (memberCalls ''out'') ?ms) =
      [MkdirSync ''out/d/'', MkdirSync ''out/d'', WriteFileSync ''out/d/a.txt'' [0x68, 0x69],
       MkdirSync ''out'', WriteFileSync ''out/b'' [0x68, 0x69]]"
    by (simp add: memberCalls_def member_simps endsWithSlash_def p1 p2 p3 d2 d3)
  have run: "performCalls plainFs
      [MkdirSync ''out'', MkdirSync ''out/d/'', MkdirSync ''out/d'',
       WriteFileSync ''out/d/a.txt'' [0x68, 0x69],
       MkdirSync ''out'', WriteFileSync ''out/b'' [0x68, 0x69]] emptyDisk = (Inr (), ?s')"
    by (simp add: performCall_def fs_simps)
  note trip = archive_round_trip [OF fits dec only, of plainFs "''out''" emptyDisk ?s']
  have one: "parseZipCentralDirectory plainFs inflateStored (buildZip ?ms []) ''out'' emptyDisk
      = (Inr (), ?s')"
    unfolding trip [THEN conjunct1] calls by (rule run)
  from trip one wellBehaved_plainFs
  have left: "(\<forall>m \<in> set ?ms. endsWithSlash (m_name m) \<longrightarrow>
                  fs_isDirectory plainFs ?s' (path_join ''out'' (m_name m)))"
    and files: "\<And>pre m post. ?ms = pre @ m # post \<Longrightarrow> \<not> endsWithSlash (m_name m) \<Longrightarrow>
          (\<forall>m' \<in> set post. \<not> writesPath plainFs ''out'' (path_join ''out'' (m_name m)) m') \<Longrightarrow>
          fs_readFile plainFs ?s' (path_join ''out'' (m_name m)) = Some (m_content m)"
    by blast+
  from left have two: "fs_isDirectory plainFs ?s' ''out/d/''"
    by (simp add: member_simps endsWithSlash_def p1)
  have three: "fs_readFile plainFs ?s' ''out/d/a.txt'' = Some [0x68, 0x69]"
    using files [of "[dirMember]" storedMember "[deflatedMember]"]
    by (simp add: member_simps endsWithSlash_def writesPath_def plainFs_def p2 p3)
  have four: "fs_readFile plainFs ?s' ''out/b'' = Some [0x68, 0x69]"
    using files [of "[dirMember, storedMember]" deflatedMember "[]"]
    by (simp add: member_simps endsWithSlash_def p3)
  from one two three four show ?thesis by simp
qed

lemma findEocd_via_suffix:
  assumes hit: "readUInt32LE E k = Inr eocdSig"
    and later: "\<forall>j \<in> set [Suc k ..< length E - 3]. readUInt32LE E j \<noteq> Inr eocdSig"
    and short: "length E \<le> 65557"
  shows "findEocd (P @ E) (int (length (P @ E)) - 4) = Inr (int (length P + k))"
proof -
  let ?buf = "P @ E"
  from hit have room: "k + 4 \<le> length E" by (simp add: readUInt32LE_def split: if_splits)
  have at: "signatureAt ?buf (int (length P + k))"
    unfolding signatureAt_def nat_int using hit by (simp add: readUInt32LE_suffix)
  have inW: "int (length P + k) \<in> searchWindow ?buf"
    using room short by (simp add: searchWindow_def)
  have "Max {q \<in> searchWindow ?buf. signatureAt ?buf q} = int (length P + k)"
  proof (rule Max_eqI)
    show "finite {q \<in> searchWindow ?buf. signatureAt ?buf q}"
      by (rule finite_Collect_conjI) (simp add: searchWindow_def)
    show "int (length P + k) \<in> {q \<in> searchWindow ?buf. signatureAt ?buf q}"
      using at inW by simp
    fix y assume y: "y \<in> {q \<in> searchWindow ?buf. signatureAt ?buf q}"
    show "y \<le> int (length P + k)"
    proof (rule ccontr)
      assume "\<not> y \<le> int (length P + k)"
      then have gt: "int (length P + k) < y" by simp
      define j where "j = nat (y - int (length P))"
      from gt y have j: "j \<in> set [Suc k ..< length E - 3]"
        by (auto simp: j_def searchWindow_def)
      from gt have "nat y = length P + j" by (simp add: j_def)
      with y have "readUInt32LE E j = Inr eocdSig"
        by (simp add: signatureAt_def readUInt32LE_suffix)
      with later j show False by blast
    qed
  qed
  moreover have "\<exists>q \<in> searchWindow ?buf. signatureAt ?buf q" using at inW by blast
  ultimately show ?thesis using findEocd_window [of ?buf] by simp
qed

text \<open>
  C1 as stated fails on three archives. The comment of the first holds the four bytes
  of the signature: the search, which takes the first match from the end, stops in the
  comment, the reads of the record leave the view, and nothing is extracted. The second
  has the stored members \<open>a\<close> and \<open>a/b\<close>: the parent directory of the second
  cannot be made, the first being a file, and the extraction ends with \<open>EEXIST\<close>
  without the file \<open>a/b\<close>. The third has two stored members \<open>a\<close>: the file
  ends with the content of the second, and that of the first is gone.
\<close>

theorem round_trip_fails_on_these_archives:
  "archiveFits [plainMember] [0x50, 0x4b, 0x05, 0x06]
   \<and> decodes (\<lambda>d. None) plainMember
   \<and> parseZipCentralDirectory plainFs (\<lambda>d. None)
       (buildZip [plainMember] [0x50, 0x4b, 0x05, 0x06]) ''out'' emptyDisk
       = (Inl RangeError, emptyDisk)
   \<and> archiveFits [plainMember, nestedMember] []
   \<and> decodes (\<lambda>d. None) nestedMember
   \<and> signatureOnlyAtRecord [plainMember, nestedMember] []
   \<and> parseZipCentralDirectory plainFs (\<lambda>d. None)
       (buildZip [plainMember, nestedMember] []) ''out'' emptyDisk
       = (Inl (FileSystemError ''EEXIST''),
          emptyDisk(''out'' \<mapsto> Directory, ''out/a'' \<mapsto> RegularFile [0x68, 0x69]))
   \<and> archiveFits [plainMember, rewrittenMember] []
   \<and> decodes (\<lambda>d. None) rewrittenMember
   \<and> signatureOnlyAtRecord [plainMember, rewrittenMember] []
   \<and> m_content plainMember = [0x68, 0x69]
   \<and> parseZipCentralDirectory plainFs (\<lambda>d. None)
       (buildZip [plainMember, rewrittenMember] []) ''out'' emptyDisk
       = (Inr (),
          emptyDisk(''out'' \<mapsto> Directory, ''out/a'' \<mapsto> RegularFile [0x79, 0x6f]))"
proof -
  let ?c = "[0x50, 0x4b, 0x05, 0x06] :: buffer"
  let ?P = "localRecords [plainMember] @ centralDirectory 0 [plainMember]"
  let ?E = "endRecord (length [plainMember]) (length (centralDirectory 0 [plainMember]))
              (length (localRecords [plainMember])) ?c"
  have ll: "length (localRecords [plainMember]) = 33"
    by (simp add: plainMember_def length_simps)
  have lc: "length (centralDirectory 0 [plainMember]) = 47"
    by (simp add: plainMember_def length_simps)
  have fits: "archiveFits [plainMember] ?c"
    unfolding archiveFits_def ll lc by (simp add: fits_simps plainMember_def)
  have dec: "decodes (\<lambda>d. None) plainMember"
    by (simp add: decodes_def plainMember_def)
  have buf: "buildZip [plainMember] ?c = ?P @ ?E" by (simp add: buildZip_def)
  have "findEocd (?P @ ?E) (int (length (?P @ ?E)) - 4) = Inr (int (length ?P + 22))"
  proof (rule findEocd_via_suffix)
    show "readUInt32LE ?E 22 = Inr eocdSig"
      unfolding ll lc
      by (simp add: endRecord_def le16_def le32_def readUInt32LE_def eocdSig_def)
    show "\<forall>j \<in> set [Suc 22 ..< length ?E - 3]. readUInt32LE ?E j \<noteq> Inr eocdSig"
      by (simp add: length_endRecord)
    show "length ?E \<le> 65557" by (simp add: length_endRecord)
  qed
  then have "readDirectory (?P @ ?E) = Inl RangeError"
    by (rule readDirectory_cut_record) (simp_all add: length_endRecord)
  then have one: "parseZipCentralDirectory plainFs (\<lambda>d. None) (buildZip [plainMember] ?c) ''out''
      emptyDisk = (Inl RangeError, emptyDisk)"
    by (simp add: parseZipCentralDirectory_def buf)
  have pa: "path_join ''out'' ''a'' = ''out/a''" by (simp add: path_simps)
  have da: "path_dirname ''out/a'' = ''out''" by (simp add: path_simps)
  have pb: "path_join ''out'' ''a/b'' = ''out/a/b''" by (simp add: path_simps)
  have db: "path_dirname ''out/a/b'' = ''out/a''" by (simp add: path_simps)
  let ?n = "[plainMember, nestedMember]"
  have nl: "length (localRecords ?n) = 68"
    by (simp add: member_simps length_simps)
  have nc: "length (centralDirectory 0 ?n) = 96"
    by (simp add: member_simps length_simps)
  have nfits: "archiveFits ?n []"
    unfolding archiveFits_def nl nc by (simp add: fits_simps member_simps)
  have ndec: "\<forall>m \<in> set ?n. decodes (\<lambda>d. None) m"
    by (simp add: decodes_def member_simps)
  have nonly: "signatureOnlyAtRecord ?n []"
  proof (rule signatureOnlyAtRecord_plain)
    show "length ?n < 19280" by simp
    show "length (centralDirectory 0 ?n) < 0x054b5000" unfolding nc by simp
    show "length (localRecords ?n) < 2 ^ 32" unfolding nl by simp
    show "length (localRecords ?n) \<noteq> 0x06054b50" unfolding nl by simp
  qed
  have ncalls: "MkdirSync ''out'' # concat (map (memberCalls ''out'') ?n) =
      [MkdirSync ''out'', MkdirSync ''out'', WriteFileSync ''out/a'' [0x68, 0x69],
       MkdirSync ''out/a'', WriteFileSync ''out/a/b'' [0x68, 0x69]]"
    by (simp add: memberCalls_def member_simps endsWithSlash_def pa da pb db)
  have nrun: "performCalls plainFs
      [MkdirSync ''out'', MkdirSync ''out'', WriteFileSync ''out/a'' [0x68, 0x69],
       MkdirSync ''out/a'', WriteFileSync ''out/a/b'' [0x68, 0x69]] emptyDisk
      = (Inl (FileSystemError ''EEXIST''),
         emptyDisk(''out'' \<mapsto> Directory, ''out/a'' \<mapsto> RegularFile [0x68, 0x69]))"
    by (simp add: performCall_def fs_simps)
  have two: "parseZipCentralDirectory plainFs (\<lambda>d. None) (buildZip ?n []) ''out'' emptyDisk
      = (Inl (FileSystemError ''EEXIST''),
         emptyDisk(''out'' \<mapsto> Directory, ''out/a'' \<mapsto> RegularFile [0x68, 0x69]))"
    unfolding extractBuiltArchive [OF nfits ndec nonly] ncalls by (rule nrun)
  let ?r = "[plainMember, rewrittenMember]"
  have rl: "length (localRecords ?r) = 66"
    by (simp add: member_simps length_simps)
  have rc: "length (centralDirectory 0 ?r) = 94"
    by (simp add: member_simps length_simps)
  have rfits: "archiveFits ?r []"
    unfolding archiveFits_def rl rc by (simp add: fits_simps member_simps)
  have rdec: "\<forall>m \<in> set ?r. decodes (\<lambda>d. None) m"
    by (simp add: decodes_def member_simps)
  have ronly: "signatureOnlyAtRecord ?r []"
  proof (rule signatureOnlyAtRecord_plain)
    show "length ?r < 19280" by simp
    show "length (centralDirectory 0 ?r) < 0x054b5000" unfolding rc by simp
    show "length (localRecords ?r) < 2 ^ 32" unfolding rl by simp
    show "length (localRecords ?r) \<noteq> 0x06054b50" unfolding rl by simp
  qed
  have rcalls: "MkdirSync ''out'' # concat (map (memberCalls ''out'') ?r) =
      [MkdirSync ''out'', MkdirSync ''out'', WriteFileSync ''out/a'' [0x68, 0x69],
       MkdirSync ''out'', WriteFileSync ''out/a'' [0x79, 0x6f]]"
    by (simp add: memberCalls_def member_simps endsWithSlash_def pa da)
  have rrun: "performCalls plainFs
      [MkdirSync ''out'', MkdirSync ''out'', WriteFileSync ''out/a'' [0x68, 0x69],
       MkdirSync ''out'', WriteFileSync ''out/a'' [0x79, 0x6f]] emptyDisk
      = (Inr (), emptyDisk(''out'' \<mapsto> Directory, ''out/a'' \<mapsto> RegularFile [0x79, 0x6f]))"
    by (simp add: performCall_def fs_simps)
  have three: "parseZipCentralDirectory plainFs (\<lambda>d. None) (buildZip ?r []) ''out'' emptyDisk
      = (Inr (), emptyDisk(''out'' \<mapsto> Directory, ''out/a'' \<mapsto> RegularFile [0x79, 0x6f]))"
    unfolding extractBuiltArchive [OF rfits rdec ronly] rcalls by (rule rrun)
  from fits dec one nfits ndec nonly two rfits rdec ronly three show ?thesis
    by (simp add: plainMember_def)
qed

text \<open>
  The name of a member is a text. An entry whose name field is the byte \<open>ff\<close>,
  which is not UTF-8, gets the decoded name U+FFFD, and its file is written under it.
\<close>

theorem name_bytes_are_decoded:
  "readDirectory invalidNameArchive =
       Inr [\<lparr>filename = [CHR 0xEF, CHR 0xBF, CHR 0xBD], method = 0, compSize = 2,
             unCompSize = 2, flags = 0, localHeaderOffset = 0\<rparr>]
   \<and> parseZipCentralDirectory plainFs (\<lambda>d. None) invalidNameArchive ''out'' emptyDisk
       = (Inr (),
          emptyDisk(''out'' \<mapsto> Directory,
                    ''out/'' @ [CHR 0xEF, CHR 0xBF, CHR 0xBD] \<mapsto> RegularFile [0x68, 0x69]))"
proof -
  let ?g = "\<lparr>filename = [CHR 0xEF, CHR 0xBF, CHR 0xBD], method = 0, compSize = 2,
             unCompSize = 2, flags = 0, localHeaderOffset = 0\<rparr>"
  have rd: "readDirectory invalidNameArchive = Inr [?g]"
    by (simp add: invalidNameArchive_def directory_simps read_simps)
  have rf: "readFileData invalidNameArchive ?g = Inr [0x68, 0x69]"
    by (simp add: invalidNameArchive_def readFileData_def read_simps)
  let ?q = "[CHR ''o'', CHR ''u'', CHR ''t'', CHR ''/'', CHR 0xEF, CHR 0xBF, CHR 0xBD]"
  have pj: "path_join ''out'' [CHR 0xEF, CHR 0xBF, CHR 0xBD] = ?q" by (simp add: path_simps)
  have pd: "path_dirname ?q = ''out''" by (simp add: path_simps)
  have four: "parseZipCentralDirectory plainFs (\<lambda>d. None) invalidNameArchive ''out'' emptyDisk
       = (Inr (), emptyDisk(''out'' \<mapsto> Directory, ?q \<mapsto> RegularFile [0x68, 0x69]))"
    by (simp add: parseZipCentralDirectory_def rd extractFile_def rf pj pd endsWithSlash_def
        fs_simps Let_def)
  from rd four show ?thesis by simp
qed

lemma length_hugeContent: "length hugeContent = 101010225"
  by (simp add: hugeContent_def)

text \<open>
  The search misses the record without a comment too, when the fields of the end record
  spell the signature: it starts at \<open>length - 4\<close>, inside the record, and in the
  archive of one stored file of 101010225 bytes it meets the offset of the central
  directory, \<open>0x06054b50\<close>, before the record itself.
\<close>

theorem offset_field_taken_for_signature:
  "archiveFits [hugeMember] []
   \<and> decodes (\<lambda>d. None) hugeMember
   \<and> length (localRecords [hugeMember]) = 0x06054b50
   \<and> parseZipCentralDirectory plainFs (\<lambda>d. None) (buildZip [hugeMember] []) ''out'' emptyDisk
       = (Inl RangeError, emptyDisk)"
proof -
  let ?P = "localRecords [hugeMember] @ centralDirectory 0 [hugeMember]"
  let ?E = "endRecord (length [hugeMember]) (length (centralDirectory 0 [hugeMember]))
              (length (localRecords [hugeMember])) []"
  have ll: "length (localRecords [hugeMember]) = 0x06054b50"
    by (simp add: hugeMember_def length_simps length_hugeContent)
  have lc: "length (centralDirectory 0 [hugeMember]) = 47"
    by (simp add: hugeMember_def length_simps)
  have fits: "archiveFits [hugeMember] []"
    unfolding archiveFits_def ll lc
    by (simp add: fits_simps hugeMember_def length_hugeContent)
  have dec: "decodes (\<lambda>d. None) hugeMember"
    by (simp add: decodes_def hugeMember_def)
  have buf: "buildZip [hugeMember] [] = ?P @ ?E" by (simp add: buildZip_def)
  have "findEocd (?P @ ?E) (int (length (?P @ ?E)) - 4) = Inr (int (length ?P + 16))"
  proof (rule findEocd_via_suffix)
    show "readUInt32LE ?E 16 = Inr eocdSig"
      unfolding ll lc
      by (simp add: endRecord_def le16_def le32_def readUInt32LE_def eocdSig_def)
    show "\<forall>j \<in> set [Suc 16 ..< length ?E - 3]. readUInt32LE ?E j \<noteq> Inr eocdSig"
      unfolding ll lc
      by (simp add: upt_rec endRecord_def le16_def le32_def readUInt32LE_def eocdSig_def)
    show "length ?E \<le> 65557" by (simp add: length_endRecord)
  qed
  then have "readDirectory (?P @ ?E) = Inl RangeError"
    by (rule readDirectory_cut_record) (simp_all add: length_endRecord)
  then have "parseZipCentralDirectory plainFs (\<lambda>d. None) (buildZip [hugeMember] []) ''out''
      emptyDisk = (Inl RangeError, emptyDisk)"
    by (simp add: parseZipCentralDirectory_def buf)
  with fits dec ll show ?thesis by simp
qed

end
